theory Spec2Isabelle
  imports Complex_Main
begin

section \<open>Scale collaborator: note names, frequencies and chord resolution\<close>

text \<open>
  JavaScript numbers are modelled as real numbers: \<open>Math.pow(2, x)\<close> is \<open>2 powr x\<close>,
  \<open>Math.max\<close>/\<open>Math.min\<close> are \<open>max\<close>/\<open>min\<close>. Rounding of doubles, NaN and the
  infinities are outside the model. Strings are ASCII character lists.
\<close>

subsection \<open>scale/types.ts and scale/intervals.ts\<close>

datatype NoteName =
  Note_C | Note_Cs | Note_D | Note_Ds | Note_E | Note_F
  | Note_Fs | Note_G | Note_Gs | Note_A | Note_As | Note_B

text \<open>The string value a \<open>NoteName\<close> has at run time.\<close>

fun noteNameString :: "NoteName \<Rightarrow> string" where
  "noteNameString Note_C = ''C''"
| "noteNameString Note_Cs = ''C#''"
| "noteNameString Note_D = ''D''"
| "noteNameString Note_Ds = ''D#''"
| "noteNameString Note_E = ''E''"
| "noteNameString Note_F = ''F''"
| "noteNameString Note_Fs = ''F#''"
| "noteNameString Note_G = ''G''"
| "noteNameString Note_Gs = ''G#''"
| "noteNameString Note_A = ''A''"
| "noteNameString Note_As = ''A#''"
| "noteNameString Note_B = ''B''"

fun NOTE_SEMITONES :: "NoteName \<Rightarrow> nat" where
  "NOTE_SEMITONES Note_C = 0"
| "NOTE_SEMITONES Note_Cs = 1"
| "NOTE_SEMITONES Note_D = 2"
| "NOTE_SEMITONES Note_Ds = 3"
| "NOTE_SEMITONES Note_E = 4"
| "NOTE_SEMITONES Note_F = 5"
| "NOTE_SEMITONES Note_Fs = 6"
| "NOTE_SEMITONES Note_G = 7"
| "NOTE_SEMITONES Note_Gs = 8"
| "NOTE_SEMITONES Note_A = 9"
| "NOTE_SEMITONES Note_As = 10"
| "NOTE_SEMITONES Note_B = 11"

definition NOTE_NAMES :: "NoteName list" where
  "NOTE_NAMES = [Note_C, Note_Cs, Note_D, Note_Ds, Note_E, Note_F,
                 Note_Fs, Note_G, Note_Gs, Note_A, Note_As, Note_B]"

text \<open>\<open>root in NOTE_SEMITONES\<close> on a run-time string: the keys of the table.\<close>

definition noteNameOfString :: "string \<Rightarrow> NoteName option" where
  "noteNameOfString str = map_of (map (\<lambda>n. (noteNameString n, n)) NOTE_NAMES) str"

definition ROMAN_TO_DEGREE :: "string \<Rightarrow> nat option" where
  "ROMAN_TO_DEGREE = map_of
     [(''I'', 1), (''II'', 2), (''III'', 3), (''IV'', 4), (''V'', 5), (''VI'', 6), (''VII'', 7),
      (''i'', 1), (''ii'', 2), (''iii'', 3), (''iv'', 4), (''v'', 5), (''vi'', 6), (''vii'', 7)]"

definition MAJOR_SCALE_DEGREES :: "nat list" where
  "MAJOR_SCALE_DEGREES = [0, 2, 4, 5, 7, 9, 11]"

record ResolvedChord =
  root_note :: NoteName
  isMajor :: bool
  symbol :: string
  chord_frequency :: real

subsection \<open>scale/generator.ts\<close>

definition A4_FREQUENCY :: real where
  "A4_FREQUENCY = 440"

definition A4_MIDI :: real where
  "A4_MIDI = 69"

definition noteToFrequency :: "NoteName \<Rightarrow> real \<Rightarrow> real" where
  "noteToFrequency note octave =
     (let semitone = real (NOTE_SEMITONES note);
          midi = semitone + (octave + 1) * 12
      in A4_FREQUENCY * 2 powr ((midi - A4_MIDI) / 12))"

text \<open>
  The semitone offsets passed by \<open>generateScale\<close> are the non-negative entries of
  \<open>SCALE_INTERVALS\<close>, so the offset is a natural number and the index is in range.
\<close>

definition getNoteAtOffset :: "NoteName \<Rightarrow> nat \<Rightarrow> NoteName" where
  "getNoteAtOffset rootNote semitones =
     (let rootIndex = NOTE_SEMITONES rootNote;
          targetIndex = (rootIndex + semitones) mod 12
      in NOTE_NAMES ! targetIndex)"

definition getOctaveForOffset :: "real \<Rightarrow> nat \<Rightarrow> nat \<Rightarrow> real" where
  "getOctaveForOffset baseOctave rootSemitone semitoneOffset =
     (let totalSemitones = rootSemitone + semitoneOffset
      in baseOctave + real (totalSemitones div 12))"

subsection \<open>scale/chords.ts\<close>

datatype error = InvalidChord string

text \<open>
  Strings are modelled as lists of 8-bit characters, and \<open>String.prototype.toUpperCase\<close>
  is modelled on strings of ASCII characters only: there a-z go to A-Z and every other
  character stays. JavaScript applies the Unicode case mapping to the other characters
  (U+0131, the dotless i, goes to I), which is not modelled: \<open>isAsciiString\<close> marks the
  strings on which \<open>toUpperCase\<close> below is the function of the source, and a statement
  about what the resolver accepts or throws on is made for those strings only.
\<close>

definition isAsciiString :: "string \<Rightarrow> bool" where
  "isAsciiString str = list_all (\<lambda>c. (of_char c :: nat) < 128) str"

definition toUpperChar :: "char \<Rightarrow> char" where
  "toUpperChar c =
     (case map_of (zip ''abcdefghijklmnopqrstuvwxyz'' ''ABCDEFGHIJKLMNOPQRSTUVWXYZ'') c of
        Some u \<Rightarrow> u
      | None \<Rightarrow> c)"

definition toUpperCase :: "string \<Rightarrow> string" where
  "toUpperCase str = map toUpperChar str"

definition isMajorChord :: "string \<Rightarrow> bool" where
  "isMajorChord roman = (roman = toUpperCase roman)"

text \<open>
  The match of the regular expression \<open>/^([A-G]#?)m?$/\<close>: the result is capture group 1
  when the whole string matches, and \<open>None\<close> (JavaScript \<open>null\<close>) otherwise.
\<close>

definition isLetterAtoG :: "char \<Rightarrow> bool" where
  "isLetterAtoG c = (c \<in> set ''ABCDEFG'')"

fun matchChordSymbol :: "string \<Rightarrow> string option" where
  "matchChordSymbol [] = None"
| "matchChordSymbol (c # rest) =
     (if \<not> isLetterAtoG c then None
      else if rest = [] \<or> rest = ''m'' then Some [c]
      else if rest = ''#'' \<or> rest = ''#m'' then Some [c, CHR ''#'']
      else None)"

definition endsWith_m :: "string \<Rightarrow> bool" where
  "endsWith_m str = (str \<noteq> [] \<and> last str = CHR ''m'')"

definition parseChordSymbol :: "string \<Rightarrow> (NoteName \<times> bool) option" where
  "parseChordSymbol symb =
     (case matchChordSymbol symb of
        None \<Rightarrow> None
      | Some rootStr \<Rightarrow>
          (case noteNameOfString rootStr of
             None \<Rightarrow> None
           | Some r \<Rightarrow> Some (r, \<not> endsWith_m symb)))"

definition resolveChord :: "string \<Rightarrow> NoteName \<Rightarrow> real \<Rightarrow> error + ResolvedChord" where
  "resolveChord chord key octave =
     (let upperChord = toUpperCase chord in
      case ROMAN_TO_DEGREE upperChord of
        Some degree \<Rightarrow>
          (let keyIndex = NOTE_SEMITONES key;
               semitoneOffset = MAJOR_SCALE_DEGREES ! (degree - 1);
               rootIndex = (keyIndex + semitoneOffset) mod 12;
               r = NOTE_NAMES ! rootIndex;
               major = isMajorChord chord;
               symb = (if major then noteNameString r else noteNameString r @ ''m'');
               freq = noteToFrequency r octave
           in Inr \<lparr>root_note = r, isMajor = major, symbol = symb, chord_frequency = freq\<rparr>)
      | None \<Rightarrow>
          (case parseChordSymbol chord of
             Some (r, major) \<Rightarrow>
               (let symb = (if major then noteNameString r else noteNameString r @ ''m'');
                    freq = noteToFrequency r octave
                in Inr \<lparr>root_note = r, isMajor = major, symbol = symb, chord_frequency = freq\<rparr>)
           | None \<Rightarrow> Inl (InvalidChord chord)))"

text \<open>\<open>Array.prototype.map\<close> with a callback that may throw: the first throw ends the call.\<close>

fun resolveChordProgression ::
  "string list \<Rightarrow> NoteName \<Rightarrow> real \<Rightarrow> error + ResolvedChord list" where
  "resolveChordProgression [] key octave = Inr []"
| "resolveChordProgression (chord # progression) key octave =
     (case resolveChord chord key octave of
        Inl e \<Rightarrow> Inl e
      | Inr c \<Rightarrow>
          (case resolveChordProgression progression key octave of
             Inl e \<Rightarrow> Inl e
           | Inr cs \<Rightarrow> Inr (c # cs)))"

section \<open>Sequencer: audio/backing.ts\<close>

subsection \<open>audio/types.ts\<close>

datatype OscillatorType = sine | square | sawtooth | triangle

record ADSREnvelope =
  attack :: real
  decay :: real
  sustain :: real
  release :: real

datatype BackingStyle = drone | quarter | eighth | blues | arpeggio

datatype BackingInstrument = bass | pad | pluck | keys

text \<open>An absent optional field of \<open>BackingConfig\<close> is \<open>None\<close>.\<close>

record BackingConfig =
  cfg_tempo :: "real option"
  cfg_style :: "BackingStyle option"
  cfg_instrument :: "BackingInstrument option"
  cfg_chords :: "string list option"
  cfg_bars :: "real option"
  cfg_swing :: "real option"

text \<open>The default \<open>config = {}\<close> of the constructor.\<close>

definition emptyConfig :: BackingConfig where
  "emptyConfig = \<lparr>cfg_tempo = None, cfg_style = None, cfg_instrument = None,
     cfg_chords = None, cfg_bars = None, cfg_swing = None\<rparr>"

subsection \<open>Constants\<close>

definition DEFAULT_TEMPO :: real where
  "DEFAULT_TEMPO = 120"

definition DEFAULT_STYLE :: BackingStyle where
  "DEFAULT_STYLE = quarter"

definition DEFAULT_INSTRUMENT :: BackingInstrument where
  "DEFAULT_INSTRUMENT = bass"

definition DEFAULT_BARS :: real where
  "DEFAULT_BARS = 1"

definition DEFAULT_SWING :: real where
  "DEFAULT_SWING = 0"

definition DEFAULT_KEY :: NoteName where
  "DEFAULT_KEY = Note_C"

definition LOOKAHEAD_SECONDS :: real where
  "LOOKAHEAD_SECONDS = 1 / 10"

record InstrumentConfig =
  inst_waveform :: OscillatorType
  inst_envelope :: ADSREnvelope
  octaveOffset :: real

fun INSTRUMENT_CONFIG :: "BackingInstrument \<Rightarrow> InstrumentConfig" where
  "INSTRUMENT_CONFIG bass =
     \<lparr>inst_waveform = triangle,
      inst_envelope = \<lparr>attack = 1 / 100, decay = 1 / 10, sustain = 6 / 10, release = 2 / 10\<rparr>,
      octaveOffset = - 1\<rparr>"
| "INSTRUMENT_CONFIG pad =
     \<lparr>inst_waveform = sine,
      inst_envelope = \<lparr>attack = 3 / 10, decay = 2 / 10, sustain = 8 / 10, release = 5 / 10\<rparr>,
      octaveOffset = 0\<rparr>"
| "INSTRUMENT_CONFIG pluck =
     \<lparr>inst_waveform = sawtooth,
      inst_envelope = \<lparr>attack = 5 / 1000, decay = 2 / 10, sustain = 2 / 10, release = 3 / 10\<rparr>,
      octaveOffset = 0\<rparr>"
| "INSTRUMENT_CONFIG keys =
     \<lparr>inst_waveform = square,
      inst_envelope = \<lparr>attack = 1 / 100, decay = 15 / 100, sustain = 4 / 10, release = 25 / 100\<rparr>,
      octaveOffset = 0\<rparr>"

record ScheduledNote =
  time :: real
  frequency :: real
  duration :: real

subsection \<open>State\<close>

text \<open>
  A transient voice as \<open>playNote\<close> hands it to the audio engine: the oscillator, its
  waveform and frequency, the time it starts, the time its release begins and the time
  it is told to stop.
\<close>

record BackingVoice =
  voice_oscillator :: nat
  voice_waveform :: OscillatorType
  voice_frequency :: real
  voice_start :: real
  voice_releaseStart :: real
  voice_stop :: real

text \<open>
  The fields of the class, followed by what the instance has done to the audio engine:
  the voices started, the oscillators forcibly stopped, and how often the master gain and
  the compressor were disconnected. \<open>schedulerInterval\<close> is \<open>True\<close> while the timer
  handle is not \<open>null\<close>. Oscillators are numbered in the order of their creation.
\<close>

record BackingTrack =
  tempo :: real
  style :: BackingStyle
  instrument :: BackingInstrument
  resolvedChords :: "ResolvedChord list"
  bars :: real
  swing :: real
  key :: NoteName
  isPlaying :: bool
  bt_destroyed :: bool
  schedulerInterval :: bool
  nextNoteTime :: real
  currentBeat :: nat
  currentChordIndex :: nat
  beatsPerChord :: real
  activeOscillators :: "nat list"
  oscillatorsCreated :: nat
  startedVoices :: "BackingVoice list"
  stoppedOscillators :: "nat list"
  masterGainDisconnects :: nat
  compressorDisconnects :: nat

subsection \<open>Methods\<close>

definition updateBeatsPerChord :: "BackingTrack \<Rightarrow> BackingTrack" where
  "updateBeatsPerChord s = (let beatsPerBar = 4 in s\<lparr>beatsPerChord := beatsPerBar * bars s\<rparr>)"

definition resolveChords :: "string list \<Rightarrow> NoteName \<Rightarrow> error + ResolvedChord list" where
  "resolveChords progression k =
     (if length progression = 0 then resolveChordProgression [''I''] k 4
      else resolveChordProgression progression k 4)"

text \<open>
  The constructor. It throws when the progression does not resolve; the audio nodes are
  created after that, and nothing of the instance exists then.
\<close>

definition BackingTrack_new :: "BackingConfig \<Rightarrow> error + BackingTrack" where
  "BackingTrack_new config =
     (case resolveChords (case cfg_chords config of Some cs \<Rightarrow> cs | None \<Rightarrow> [''I'']) DEFAULT_KEY of
        Inl e \<Rightarrow> Inl e
      | Inr chords \<Rightarrow>
          Inr (updateBeatsPerChord
            \<lparr>tempo = (case cfg_tempo config of Some t \<Rightarrow> t | None \<Rightarrow> DEFAULT_TEMPO),
             style = (case cfg_style config of Some st \<Rightarrow> st | None \<Rightarrow> DEFAULT_STYLE),
             instrument = (case cfg_instrument config of Some i \<Rightarrow> i | None \<Rightarrow> DEFAULT_INSTRUMENT),
             resolvedChords = chords,
             bars = (case cfg_bars config of Some b \<Rightarrow> b | None \<Rightarrow> DEFAULT_BARS),
             swing = max 0 (min 100 (case cfg_swing config of Some sw \<Rightarrow> sw | None \<Rightarrow> DEFAULT_SWING)),
             key = DEFAULT_KEY,
             isPlaying = False,
             bt_destroyed = False,
             schedulerInterval = False,
             nextNoteTime = 0,
             currentBeat = 0,
             currentChordIndex = 0,
             beatsPerChord = 0,
             activeOscillators = [],
             oscillatorsCreated = 0,
             startedVoices = [],
             stoppedOscillators = [],
             masterGainDisconnects = 0,
             compressorDisconnects = 0\<rparr>))"

text \<open>\<open>now\<close> is \<open>audioContext.currentTime\<close> at the call.\<close>

definition play :: "real \<Rightarrow> BackingTrack \<Rightarrow> BackingTrack" where
  "play now s =
     (if isPlaying s \<or> bt_destroyed s then s
      else s\<lparr>isPlaying := True, nextNoteTime := now, currentBeat := 0,
             currentChordIndex := 0, schedulerInterval := True\<rparr>)"

text \<open>
  \<open>osc.stop()\<close> inside \<open>try\<close>/\<open>catch\<close>: every oscillator still in the set is told to
  stop, and an oscillator that has already stopped raises nothing to the caller.
\<close>

definition stop :: "BackingTrack \<Rightarrow> BackingTrack" where
  "stop s =
     (if \<not> isPlaying s then s
      else s\<lparr>isPlaying := False, schedulerInterval := False,
             stoppedOscillators := stoppedOscillators s @ activeOscillators s,
             activeOscillators := []\<rparr>)"

definition setTempo :: "real \<Rightarrow> BackingTrack \<Rightarrow> BackingTrack" where
  "setTempo bpm s = updateBeatsPerChord (s\<lparr>tempo := max 20 (min 300 bpm)\<rparr>)"

definition getTempo :: "BackingTrack \<Rightarrow> real" where
  "getTempo s = tempo s"

text \<open>
  \<open>setChords\<close> assigns the key before it resolves, so the key stays assigned when the
  resolver throws: the result is the state after the call and the error thrown, if any.
\<close>

definition setChords ::
  "string list \<Rightarrow> NoteName option \<Rightarrow> BackingTrack \<Rightarrow> BackingTrack \<times> error option" where
  "setChords progression k s =
     (let s1 = (case k of Some k' \<Rightarrow> s\<lparr>key := k'\<rparr> | None \<Rightarrow> s) in
      case resolveChords progression (key s1) of
        Inl e \<Rightarrow> (s1, Some e)
      | Inr chords \<Rightarrow> (s1\<lparr>resolvedChords := chords, currentChordIndex := 0\<rparr>, None))"

definition getChords :: "BackingTrack \<Rightarrow> ResolvedChord list" where
  "getChords s = resolvedChords s"

definition setStyle :: "BackingStyle \<Rightarrow> BackingTrack \<Rightarrow> BackingTrack" where
  "setStyle st s = updateBeatsPerChord (s\<lparr>style := st\<rparr>)"

definition getStyle :: "BackingTrack \<Rightarrow> BackingStyle" where
  "getStyle s = style s"

definition setSwing :: "real \<Rightarrow> BackingTrack \<Rightarrow> BackingTrack" where
  "setSwing sw s = s\<lparr>swing := max 0 (min 100 sw)\<rparr>"

definition getSwing :: "BackingTrack \<Rightarrow> real" where
  "getSwing s = swing s"

definition setInstrument :: "BackingInstrument \<Rightarrow> BackingTrack \<Rightarrow> BackingTrack" where
  "setInstrument i s = s\<lparr>instrument := i\<rparr>"

definition getInstrument :: "BackingTrack \<Rightarrow> BackingInstrument" where
  "getInstrument s = instrument s"

definition isActive :: "BackingTrack \<Rightarrow> bool" where
  "isActive s = isPlaying s"

definition BackingTrack_isDestroyed :: "BackingTrack \<Rightarrow> bool" where
  "BackingTrack_isDestroyed s = bt_destroyed s"

definition BackingTrack_destroy :: "BackingTrack \<Rightarrow> BackingTrack" where
  "BackingTrack_destroy s =
     (if bt_destroyed s then s
      else (let s1 = stop (s\<lparr>bt_destroyed := True\<rparr>)
            in s1\<lparr>masterGainDisconnects := masterGainDisconnects s1 + 1,
                  compressorDisconnects := compressorDisconnects s1 + 1\<rparr>))"

definition getChordTones :: "ResolvedChord \<Rightarrow> real \<Rightarrow> real list" where
  "getChordTones chord octave =
     (let r = noteToFrequency (root_note chord) octave;
          thirdSemitones = (if isMajor chord then 4 else 3);
          fifth = r * 2 powr (7 / 12);
          third = r * 2 powr (thirdSemitones / 12)
      in [r, third, fifth])"

text \<open>
  \<open>if (!chord) return []\<close>: an index outside the list reads \<open>undefined\<close>.
\<close>

definition getNotesForCurrentBeat :: "BackingTrack \<Rightarrow> ScheduledNote list" where
  "getNotesForCurrentBeat s =
     (if \<not> currentChordIndex s < length (resolvedChords s) then []
      else
        (let chord = resolvedChords s ! currentChordIndex s;
             instrumentConfig = INSTRUMENT_CONFIG (instrument s);
             baseOctave = 4 + octaveOffset instrumentConfig;
             rootFreq = noteToFrequency (root_note chord) baseOctave;
             beatDuration = 60 / tempo s
         in case style s of
              drone \<Rightarrow>
                (if currentBeat s = 0
                 then [\<lparr>time = 0, frequency = rootFreq,
                        duration = beatDuration * beatsPerChord s * (95 / 100)\<rparr>]
                 else [])
            | quarter \<Rightarrow>
                [\<lparr>time = 0, frequency = rootFreq, duration = beatDuration * (8 / 10)\<rparr>]
            | eighth \<Rightarrow>
                (let swingOffset = (swing s / 100) * (beatDuration / 3)
                 in [\<lparr>time = 0, frequency = rootFreq, duration = beatDuration * (4 / 10)\<rparr>,
                     \<lparr>time = beatDuration / 2 + swingOffset, frequency = rootFreq,
                      duration = beatDuration * (35 / 100)\<rparr>])
            | blues \<Rightarrow>
                (let shuffleSwing = beatDuration * (2 / 3)
                 in [\<lparr>time = 0, frequency = rootFreq, duration = beatDuration * (5 / 10)\<rparr>,
                     \<lparr>time = shuffleSwing, frequency = rootFreq,
                      duration = beatDuration * (25 / 100)\<rparr>])
            | arpeggio \<Rightarrow>
                (let chordTones = getChordTones chord baseOctave;
                     noteIndex = currentBeat s mod length chordTones
                 in [\<lparr>time = 0, frequency = chordTones ! noteIndex,
                      duration = beatDuration * (8 / 10)\<rparr>])))"

definition playNote :: "real \<Rightarrow> real \<Rightarrow> real \<Rightarrow> BackingTrack \<Rightarrow> BackingTrack" where
  "playNote freq startTime dur s =
     (let instrumentConfig = INSTRUMENT_CONFIG (instrument s);
          envelope = inst_envelope instrumentConfig;
          oscillator = oscillatorsCreated s;
          releaseStart = startTime + dur;
          releaseEnd = releaseStart + release envelope
      in s\<lparr>oscillatorsCreated := oscillator + 1,
            startedVoices := startedVoices s @
              [\<lparr>voice_oscillator = oscillator, voice_waveform = inst_waveform instrumentConfig,
                voice_frequency = freq, voice_start = startTime,
                voice_releaseStart = releaseStart, voice_stop = releaseEnd + 1 / 100\<rparr>],
            activeOscillators := activeOscillators s @ [oscillator]\<rparr>)"

text \<open>The \<open>onended\<close> callback of an oscillator.\<close>

definition oscillatorEnded :: "nat \<Rightarrow> BackingTrack \<Rightarrow> BackingTrack" where
  "oscillatorEnded oscillator s =
     s\<lparr>activeOscillators := filter (\<lambda>x. x \<noteq> oscillator) (activeOscillators s)\<rparr>"

text \<open>
  JavaScript's \<open>% 0\<close> is NaN where \<open>mod 0\<close> of HOL is the identity; the chord list is
  shown below never to be empty.
\<close>

definition advanceBeat :: "BackingTrack \<Rightarrow> BackingTrack" where
  "advanceBeat s =
     (let beatDuration = 60 / tempo s;
          s1 = s\<lparr>nextNoteTime := nextNoteTime s + beatDuration, currentBeat := currentBeat s + 1\<rparr>
      in if real (currentBeat s1) \<ge> beatsPerChord s1
         then s1\<lparr>currentBeat := 0,
                 currentChordIndex := (currentChordIndex s1 + 1) mod length (resolvedChords s1)\<rparr>
         else s1)"

text \<open>The body of the \<open>while\<close> loop of \<open>schedule\<close>: the notes of one beat, then the advance.\<close>

fun playNotes :: "ScheduledNote list \<Rightarrow> BackingTrack \<Rightarrow> BackingTrack" where
  "playNotes [] s = s"
| "playNotes (note # notes) s =
     playNotes notes (playNote (frequency note) (nextNoteTime s + time note) (duration note) s)"

definition scheduleBeat :: "BackingTrack \<Rightarrow> BackingTrack" where
  "scheduleBeat s = advanceBeat (playNotes (getNotesForCurrentBeat s) s)"

text \<open>
  The loop runs while \<open>nextNoteTime\<close> is before the end of the lookahead window; nothing
  in the source bounds the number of rounds, so a run that does not end is \<open>None\<close>.
\<close>

partial_function (option) scheduleLoop :: "real \<Rightarrow> BackingTrack \<Rightarrow> BackingTrack option" where
  "scheduleLoop lookaheadEnd s =
     (if nextNoteTime s < lookaheadEnd then scheduleLoop lookaheadEnd (scheduleBeat s)
      else Some s)"

definition schedule :: "real \<Rightarrow> BackingTrack \<Rightarrow> BackingTrack option" where
  "schedule now s = (let lookaheadEnd = now + LOOKAHEAD_SECONDS in scheduleLoop lookaheadEnd s)"

subsection \<open>Runs of the sequencer\<close>

text \<open>
  What can happen to an instance: a call of a public method, a tick of the timer (which
  fires only while the interval is set) with the audio clock's time, or the end of an
  oscillator.
\<close>

datatype BackingEvent =
    CallPlay real
  | CallStop
  | CallSetTempo real
  | CallSetChords "string list" "NoteName option"
  | CallSetStyle BackingStyle
  | CallSetSwing real
  | CallSetInstrument BackingInstrument
  | CallDestroy
  | Tick real
  | OscillatorEnded nat

fun applyEvent :: "BackingEvent \<Rightarrow> BackingTrack \<Rightarrow> BackingTrack option" where
  "applyEvent (CallPlay now) s = Some (play now s)"
| "applyEvent CallStop s = Some (stop s)"
| "applyEvent (CallSetTempo bpm) s = Some (setTempo bpm s)"
| "applyEvent (CallSetChords progression k) s = Some (fst (setChords progression k s))"
| "applyEvent (CallSetStyle st) s = Some (setStyle st s)"
| "applyEvent (CallSetSwing sw) s = Some (setSwing sw s)"
| "applyEvent (CallSetInstrument i) s = Some (setInstrument i s)"
| "applyEvent CallDestroy s = Some (BackingTrack_destroy s)"
| "applyEvent (Tick now) s = (if schedulerInterval s then schedule now s else Some s)"
| "applyEvent (OscillatorEnded oscillator) s = Some (oscillatorEnded oscillator s)"

fun runEvents :: "BackingEvent list \<Rightarrow> BackingTrack \<Rightarrow> BackingTrack option" where
  "runEvents [] s = Some s"
| "runEvents (ev # evs) s =
     (case applyEvent ev s of None \<Rightarrow> None | Some s' \<Rightarrow> runEvents evs s')"

inductive backingReachable :: "BackingTrack \<Rightarrow> bool" where
  constructed: "BackingTrack_new config = Inr s \<Longrightarrow> backingReachable s"
| event: "backingReachable s \<Longrightarrow> applyEvent ev s = Some s' \<Longrightarrow> backingReachable s'"

text \<open>
  One playback: the events between a \<open>play()\<close> and the \<open>stop()\<close> or \<open>destroy()\<close> that
  ends it.
\<close>

fun withinPlayback :: "BackingEvent \<Rightarrow> bool" where
  "withinPlayback CallStop = False"
| "withinPlayback CallDestroy = False"
| "withinPlayback ev = True"

section \<open>Voice engine: audio/synth.ts with audio/effects.ts\<close>

subsection \<open>The audio graph\<close>

text \<open>
  The nodes the synth connects: its three fixed stages and the destination, the input and
  output points of an effect unit, the modulation gain of a vibrato unit, and the
  oscillator, the detune parameter and the envelope gain of a voice. Units and voice nodes
  are numbered in the order of their creation. What an effect factory wires between the
  input and the output of its unit stays inside the unit.
\<close>

datatype AudioNode =
    EffectsInputGain
  | MasterGain
  | Compressor
  | Destination
  | EffectInput nat
  | EffectOutput nat
  | LfoGain nat
  | OscillatorNode nat
  | OscillatorDetune nat
  | VoiceGain nat

record ActiveNote =
  oscillator :: nat
  gainNode :: nat
  note_frequency :: real

record EffectsState =
  fx_delay :: bool
  fx_distortion :: bool
  fx_vibrato :: bool
  fx_filter :: bool
  fx_reverb :: bool

text \<open>The unit of each effect, \<open>None\<close> for \<open>null\<close>.\<close>

record EffectNodes =
  node_delay :: "nat option"
  node_distortion :: "nat option"
  node_vibrato :: "nat option"
  node_filter :: "nat option"
  node_reverb :: "nat option"

record PartialEnvelope =
  opt_attack :: "real option"
  opt_decay :: "real option"
  opt_sustain :: "real option"
  opt_release :: "real option"

record SynthConfig =
  cfg_waveform :: "OscillatorType option"
  cfg_envelope :: PartialEnvelope
  cfg_volume :: "real option"

definition DEFAULT_ENVELOPE :: ADSREnvelope where
  "DEFAULT_ENVELOPE = \<lparr>attack = 1 / 100, decay = 1 / 10, sustain = 7 / 10, release = 3 / 10\<rparr>"

definition DEFAULT_VOLUME :: real where
  "DEFAULT_VOLUME = 1 / 2"

definition MIN_FREQUENCY :: real where
  "MIN_FREQUENCY = 20"

definition MAX_FREQUENCY :: real where
  "MAX_FREQUENCY = 20000"

definition MIN_OCTAVE_SHIFT :: real where
  "MIN_OCTAVE_SHIFT = - 2"

definition MAX_OCTAVE_SHIFT :: real where
  "MAX_OCTAVE_SHIFT = 2"

text \<open>
  The fields of the class (a handle is \<open>True\<close> while it is not \<open>null\<close>; the voice table
  is the \<open>Map\<close> in insertion order), followed by the state of the audio engine: the
  number of nodes created, the connections made, how often an \<open>AudioContext\<close> was created
  and closed, the oscillators told to stop, the gain of the master stage and the detune
  values set.
\<close>

record Synth =
  audioContext :: bool
  masterGain :: bool
  compressor :: bool
  effectsInputGain :: bool
  activeNotes :: "(int \<times> ActiveNote) list"
  waveform :: OscillatorType
  envelope :: ADSREnvelope
  volume :: real
  destroyed :: bool
  octaveShift :: real
  effectsState :: EffectsState
  effectNodes :: EffectNodes
  nodesCreated :: nat
  connections :: "(AudioNode \<times> AudioNode) list"
  contextsCreated :: nat
  contextsClosed :: nat
  oscillatorsStopped :: "nat list"
  masterGainValue :: real
  detuneValues :: "(nat \<times> real) list"

subsection \<open>Web Audio and Map primitives\<close>

text \<open>\<open>a.connect(b)\<close>: connecting a pair that is connected already changes nothing.\<close>

definition connect :: "AudioNode \<Rightarrow> AudioNode \<Rightarrow> Synth \<Rightarrow> Synth" where
  "connect a b s = s\<lparr>connections := List.insert (a, b) (connections s)\<rparr>"

text \<open>\<open>a.disconnect()\<close>: every connection out of the node goes.\<close>

definition disconnectAll :: "AudioNode \<Rightarrow> Synth \<Rightarrow> Synth" where
  "disconnectAll a s = s\<lparr>connections := filter (\<lambda>e. fst e \<noteq> a) (connections s)\<rparr>"

text \<open>
  \<open>a.disconnect(b)\<close> inside \<open>try\<close>/\<open>catch\<close>: the connection goes if it is there, and the
  exception for a missing connection is swallowed.
\<close>

definition disconnectFrom :: "AudioNode \<Rightarrow> AudioNode \<Rightarrow> Synth \<Rightarrow> Synth" where
  "disconnectFrom a b s = s\<lparr>connections := filter (\<lambda>e. e \<noteq> (a, b)) (connections s)\<rparr>"

text \<open>\<open>Map.prototype.get\<close>, \<open>has\<close>, \<open>set\<close> and \<open>delete\<close>.\<close>

definition mapGet :: "('k \<times> 'v) list \<Rightarrow> 'k \<Rightarrow> 'v option" where
  "mapGet m k = map_of m k"

definition mapHas :: "('k \<times> 'v) list \<Rightarrow> 'k \<Rightarrow> bool" where
  "mapHas m k = (k \<in> set (map fst m))"

definition mapSet :: "'k \<Rightarrow> 'v \<Rightarrow> ('k \<times> 'v) list \<Rightarrow> ('k \<times> 'v) list" where
  "mapSet k v m =
     (if mapHas m k then map (\<lambda>e. if fst e = k then (k, v) else e) m else m @ [(k, v)])"

definition mapDelete :: "'k \<Rightarrow> ('k \<times> 'v) list \<Rightarrow> ('k \<times> 'v) list" where
  "mapDelete k m = filter (\<lambda>e. fst e \<noteq> k) m"

subsection \<open>Effect units\<close>

text \<open>
  The five factories of audio/effects.ts allocate the nodes of a unit; the cleanup of a
  unit disconnects each of them, and the cleanup of a vibrato unit its modulation gain as
  well.
\<close>

definition createEffect :: "Synth \<Rightarrow> nat \<times> Synth" where
  "createEffect s = (nodesCreated s, s\<lparr>nodesCreated := nodesCreated s + 1\<rparr>)"

definition cleanupEffect :: "nat \<Rightarrow> Synth \<Rightarrow> Synth" where
  "cleanupEffect u s = disconnectAll (EffectOutput u) (disconnectAll (EffectInput u) s)"

definition cleanupVibrato :: "nat \<Rightarrow> Synth \<Rightarrow> Synth" where
  "cleanupVibrato u s = cleanupEffect u (disconnectAll (LfoGain u) s)"

subsection \<open>Methods\<close>

definition clampVolume :: "real \<Rightarrow> real" where
  "clampVolume v = max 0 (min 1 v)"

definition Synth_new :: "SynthConfig \<Rightarrow> Synth" where
  "Synth_new config =
     \<lparr>audioContext = False,
      masterGain = False,
      compressor = False,
      effectsInputGain = False,
      activeNotes = [],
      waveform = (case cfg_waveform config of Some w \<Rightarrow> w | None \<Rightarrow> sine),
      envelope =
        \<lparr>attack = (case opt_attack (cfg_envelope config) of Some x \<Rightarrow> x
                    | None \<Rightarrow> attack DEFAULT_ENVELOPE),
         decay = (case opt_decay (cfg_envelope config) of Some x \<Rightarrow> x
                    | None \<Rightarrow> decay DEFAULT_ENVELOPE),
         sustain = (case opt_sustain (cfg_envelope config) of Some x \<Rightarrow> x
                    | None \<Rightarrow> sustain DEFAULT_ENVELOPE),
         release = (case opt_release (cfg_envelope config) of Some x \<Rightarrow> x
                    | None \<Rightarrow> release DEFAULT_ENVELOPE)\<rparr>,
      volume = clampVolume (case cfg_volume config of Some v \<Rightarrow> v | None \<Rightarrow> DEFAULT_VOLUME),
      destroyed = False,
      octaveShift = 0,
      effectsState = \<lparr>fx_delay = False, fx_distortion = False, fx_vibrato = False,
                       fx_filter = False, fx_reverb = False\<rparr>,
      effectNodes = \<lparr>node_delay = None, node_distortion = None, node_vibrato = None,
                      node_filter = None, node_reverb = None\<rparr>,
      nodesCreated = 0,
      connections = [],
      contextsCreated = 0,
      contextsClosed = 0,
      oscillatorsStopped = [],
      masterGainValue = 0,
      detuneValues = []\<rparr>"

text \<open>The five steps of \<open>cleanupAllEffects\<close>, in the order of the source.\<close>

definition cleanupDelayNode :: "Synth \<Rightarrow> Synth" where
  "cleanupDelayNode s =
     (case node_delay (effectNodes s) of
        Some u \<Rightarrow> (cleanupEffect u s)\<lparr>effectNodes := (effectNodes s)\<lparr>node_delay := None\<rparr>\<rparr>
      | None \<Rightarrow> s)"

definition cleanupDistortionNode :: "Synth \<Rightarrow> Synth" where
  "cleanupDistortionNode s =
     (case node_distortion (effectNodes s) of
        Some u \<Rightarrow> (cleanupEffect u s)\<lparr>effectNodes := (effectNodes s)\<lparr>node_distortion := None\<rparr>\<rparr>
      | None \<Rightarrow> s)"

definition cleanupVibratoNode :: "Synth \<Rightarrow> Synth" where
  "cleanupVibratoNode s =
     (case node_vibrato (effectNodes s) of
        Some u \<Rightarrow> (cleanupVibrato u s)\<lparr>effectNodes := (effectNodes s)\<lparr>node_vibrato := None\<rparr>\<rparr>
      | None \<Rightarrow> s)"

definition cleanupFilterNode :: "Synth \<Rightarrow> Synth" where
  "cleanupFilterNode s =
     (case node_filter (effectNodes s) of
        Some u \<Rightarrow> (cleanupEffect u s)\<lparr>effectNodes := (effectNodes s)\<lparr>node_filter := None\<rparr>\<rparr>
      | None \<Rightarrow> s)"

definition cleanupReverbNode :: "Synth \<Rightarrow> Synth" where
  "cleanupReverbNode s =
     (case node_reverb (effectNodes s) of
        Some u \<Rightarrow> (cleanupEffect u s)\<lparr>effectNodes := (effectNodes s)\<lparr>node_reverb := None\<rparr>\<rparr>
      | None \<Rightarrow> s)"

definition cleanupAllEffects :: "Synth \<Rightarrow> Synth" where
  "cleanupAllEffects s =
     cleanupReverbNode (cleanupFilterNode (cleanupVibratoNode
       (cleanupDistortionNode (cleanupDelayNode s))))"

text \<open>
  The middle of \<open>rebuildEffectChain\<close>: a unit for every enabled flag, in the order of the
  source, each step working on the synth and the list \<open>activeEffects\<close>. The vibrato unit
  is created and not pushed.
\<close>

definition createDistortionIfEnabled :: "Synth \<times> nat list \<Rightarrow> Synth \<times> nat list" where
  "createDistortionIfEnabled sa =
     (let s = fst sa; activeEffects = snd sa in
      if fx_distortion (effectsState s)
      then (let (u, t) = createEffect s
            in (t\<lparr>effectNodes := (effectNodes t)\<lparr>node_distortion := Some u\<rparr>\<rparr>,
                activeEffects @ [u]))
      else (s, activeEffects))"

definition createFilterIfEnabled :: "Synth \<times> nat list \<Rightarrow> Synth \<times> nat list" where
  "createFilterIfEnabled sa =
     (let s = fst sa; activeEffects = snd sa in
      if fx_filter (effectsState s)
      then (let (u, t) = createEffect s
            in (t\<lparr>effectNodes := (effectNodes t)\<lparr>node_filter := Some u\<rparr>\<rparr>,
                activeEffects @ [u]))
      else (s, activeEffects))"

definition createVibratoIfEnabled :: "Synth \<times> nat list \<Rightarrow> Synth \<times> nat list" where
  "createVibratoIfEnabled sa =
     (let s = fst sa; activeEffects = snd sa in
      if fx_vibrato (effectsState s)
      then (let (u, t) = createEffect s
            in (t\<lparr>effectNodes := (effectNodes t)\<lparr>node_vibrato := Some u\<rparr>\<rparr>, activeEffects))
      else (s, activeEffects))"

definition createDelayIfEnabled :: "Synth \<times> nat list \<Rightarrow> Synth \<times> nat list" where
  "createDelayIfEnabled sa =
     (let s = fst sa; activeEffects = snd sa in
      if fx_delay (effectsState s)
      then (let (u, t) = createEffect s
            in (t\<lparr>effectNodes := (effectNodes t)\<lparr>node_delay := Some u\<rparr>\<rparr>,
                activeEffects @ [u]))
      else (s, activeEffects))"

definition createReverbIfEnabled :: "Synth \<times> nat list \<Rightarrow> Synth \<times> nat list" where
  "createReverbIfEnabled sa =
     (let s = fst sa; activeEffects = snd sa in
      if fx_reverb (effectsState s)
      then (let (u, t) = createEffect s
            in (t\<lparr>effectNodes := (effectNodes t)\<lparr>node_reverb := Some u\<rparr>\<rparr>,
                activeEffects @ [u]))
      else (s, activeEffects))"

definition createActiveEffects :: "Synth \<Rightarrow> Synth \<times> nat list" where
  "createActiveEffects s =
     createReverbIfEnabled (createDelayIfEnabled (createVibratoIfEnabled
       (createFilterIfEnabled (createDistortionIfEnabled (s, [])))))"

text \<open>The \<open>for\<close> loop that connects each unit of \<open>activeEffects\<close> to the next.\<close>

fun connectPairs :: "nat list \<Rightarrow> Synth \<Rightarrow> Synth" where
  "connectPairs (current # next # rest) s =
     connectPairs (next # rest) (connect (EffectOutput current) (EffectInput next) s)"
| "connectPairs activeEffects s = s"

definition connectChain :: "nat list \<Rightarrow> Synth \<Rightarrow> Synth" where
  "connectChain activeEffects s =
     (if length activeEffects = 0 then connect EffectsInputGain MasterGain s
      else (let firstEffect = hd activeEffects;
                lastEffect = last activeEffects;
                s1 = connect EffectsInputGain (EffectInput firstEffect) s;
                s2 = connectPairs activeEffects s1
            in connect (EffectOutput lastEffect) MasterGain s2))"

definition rebuildEffectChain :: "Synth \<Rightarrow> Synth" where
  "rebuildEffectChain s =
     (if \<not> audioContext s \<or> \<not> effectsInputGain s \<or> \<not> masterGain s then s
      else (let s1 = disconnectAll EffectsInputGain s;
                s2 = cleanupAllEffects s1;
                (s3, activeEffects) = createActiveEffects s2
            in connectChain activeEffects s3))"

definition ensureAudioContext :: "Synth \<Rightarrow> Synth" where
  "ensureAudioContext s =
     (if audioContext s then s
      else (let s1 = s\<lparr>audioContext := True, contextsCreated := contextsCreated s + 1,
                        compressor := True, masterGain := True, masterGainValue := volume s,
                        effectsInputGain := True\<rparr>;
                s2 = rebuildEffectChain s1;
                s3 = connect MasterGain Compressor s2
            in connect Compressor Destination s3))"

definition noteOff :: "int \<Rightarrow> Synth \<Rightarrow> Synth" where
  "noteOff noteIndex s =
     (case mapGet (activeNotes s) noteIndex of
        None \<Rightarrow> s
      | Some n \<Rightarrow>
          (if \<not> audioContext s then s
           else (let s1 = (case node_vibrato (effectNodes s) of
                             Some v \<Rightarrow>
                               (if fx_vibrato (effectsState s)
                                then disconnectFrom (LfoGain v) (OscillatorDetune (oscillator n)) s
                                else s)
                           | None \<Rightarrow> s);
                     s2 = s1\<lparr>oscillatorsStopped := oscillatorsStopped s1 @ [oscillator n]\<rparr>
                 in s2\<lparr>activeNotes := mapDelete noteIndex (activeNotes s2)\<rparr>)))"

definition noteOn :: "int \<Rightarrow> real \<Rightarrow> Synth \<Rightarrow> Synth" where
  "noteOn noteIndex freq s =
     (if destroyed s then s
      else (let s1 = ensureAudioContext s in
            if \<not> audioContext s1 \<or> \<not> effectsInputGain s1 then s1
            else (let s2 = (if mapHas (activeNotes s1) noteIndex then noteOff noteIndex s1 else s1);
                      shiftedFreq = freq * 2 powr octaveShift s2;
                      clampedFreq = max MIN_FREQUENCY (min MAX_FREQUENCY shiftedFreq);
                      osc = nodesCreated s2;
                      s3 = s2\<lparr>nodesCreated := osc + 1\<rparr>;
                      s4 = (case node_vibrato (effectNodes s3) of
                              Some v \<Rightarrow>
                                (if fx_vibrato (effectsState s3)
                                 then connect (LfoGain v) (OscillatorDetune osc) s3
                                 else s3)
                            | None \<Rightarrow> s3);
                      gain = nodesCreated s4;
                      s5 = s4\<lparr>nodesCreated := gain + 1\<rparr>;
                      s6 = connect (OscillatorNode osc) (VoiceGain gain) s5;
                      s7 = connect (VoiceGain gain) EffectsInputGain s6
                  in s7\<lparr>activeNotes :=
                         mapSet noteIndex
                           \<lparr>oscillator = osc, gainNode = gain, note_frequency = clampedFreq\<rparr>
                           (activeNotes s7)\<rparr>)))"

text \<open>
  \<open>for (const noteIndex of this.activeNotes.keys())\<close>: the iteration of a \<open>Map\<close> goes on
  after the entry it stands on is deleted, so every key of the table is visited.
\<close>

definition stopAll :: "Synth \<Rightarrow> Synth" where
  "stopAll s = fold noteOff (map fst (activeNotes s)) s"

definition setWaveform :: "OscillatorType \<Rightarrow> Synth \<Rightarrow> Synth" where
  "setWaveform type s = s\<lparr>waveform := type\<rparr>"

definition setVolume :: "real \<Rightarrow> Synth \<Rightarrow> Synth" where
  "setVolume v s =
     (let s1 = s\<lparr>volume := clampVolume v\<rparr>
      in if masterGain s1 \<and> audioContext s1 then s1\<lparr>masterGainValue := volume s1\<rparr> else s1)"

definition bend :: "int \<Rightarrow> real \<Rightarrow> Synth \<Rightarrow> Synth" where
  "bend noteIndex cents s =
     (case mapGet (activeNotes s) noteIndex of
        None \<Rightarrow> s
      | Some n \<Rightarrow>
          (if \<not> audioContext s then s
           else s\<lparr>detuneValues := detuneValues s @ [(oscillator n, cents)]\<rparr>))"

definition setOctaveShift :: "real \<Rightarrow> Synth \<Rightarrow> Synth" where
  "setOctaveShift octaves s =
     s\<lparr>octaveShift := max MIN_OCTAVE_SHIFT (min MAX_OCTAVE_SHIFT octaves)\<rparr>"

definition getOctaveShift :: "Synth \<Rightarrow> real" where
  "getOctaveShift s = octaveShift s"

definition toggleDelay :: "bool \<Rightarrow> Synth \<Rightarrow> Synth" where
  "toggleDelay enabled s =
     (if fx_delay (effectsState s) = enabled then s
      else (let s1 = s\<lparr>effectsState := (effectsState s)\<lparr>fx_delay := enabled\<rparr>\<rparr>
            in if audioContext s1 then rebuildEffectChain s1 else s1))"

definition toggleDistortion :: "bool \<Rightarrow> Synth \<Rightarrow> Synth" where
  "toggleDistortion enabled s =
     (if fx_distortion (effectsState s) = enabled then s
      else (let s1 = s\<lparr>effectsState := (effectsState s)\<lparr>fx_distortion := enabled\<rparr>\<rparr>
            in if audioContext s1 then rebuildEffectChain s1 else s1))"

text \<open>The loop over \<open>this.activeNotes.values()\<close> in \<open>toggleVibrato\<close>.\<close>

fun attachVibrato :: "bool \<Rightarrow> nat \<Rightarrow> (int \<times> ActiveNote) list \<Rightarrow> Synth \<Rightarrow> Synth" where
  "attachVibrato enabled v [] s = s"
| "attachVibrato enabled v (e # es) s =
     attachVibrato enabled v es
       (if enabled then connect (LfoGain v) (OscillatorDetune (oscillator (snd e))) s
        else disconnectFrom (LfoGain v) (OscillatorDetune (oscillator (snd e))) s)"

definition toggleVibrato :: "bool \<Rightarrow> Synth \<Rightarrow> Synth" where
  "toggleVibrato enabled s =
     (if fx_vibrato (effectsState s) = enabled then s
      else (let s1 = s\<lparr>effectsState := (effectsState s)\<lparr>fx_vibrato := enabled\<rparr>\<rparr>
            in if audioContext s1
               then (let s2 = rebuildEffectChain s1
                     in case node_vibrato (effectNodes s2) of
                          Some v \<Rightarrow> attachVibrato enabled v (activeNotes s2) s2
                        | None \<Rightarrow> s2)
               else s1))"

definition toggleFilter :: "bool \<Rightarrow> Synth \<Rightarrow> Synth" where
  "toggleFilter enabled s =
     (if fx_filter (effectsState s) = enabled then s
      else (let s1 = s\<lparr>effectsState := (effectsState s)\<lparr>fx_filter := enabled\<rparr>\<rparr>
            in if audioContext s1 then rebuildEffectChain s1 else s1))"

definition toggleReverb :: "bool \<Rightarrow> Synth \<Rightarrow> Synth" where
  "toggleReverb enabled s =
     (if fx_reverb (effectsState s) = enabled then s
      else (let s1 = s\<lparr>effectsState := (effectsState s)\<lparr>fx_reverb := enabled\<rparr>\<rparr>
            in if audioContext s1 then rebuildEffectChain s1 else s1))"

definition getActiveEffects :: "Synth \<Rightarrow> EffectsState" where
  "getActiveEffects s = effectsState s"

definition Synth_destroy :: "Synth \<Rightarrow> Synth" where
  "Synth_destroy s =
     (if destroyed s then s
      else (let s1 = s\<lparr>destroyed := True\<rparr>;
                s2 = stopAll s1;
                s3 = cleanupAllEffects s2;
                s4 = (if audioContext s3
                      then s3\<lparr>contextsClosed := contextsClosed s3 + 1, audioContext := False\<rparr>
                      else s3)
            in s4\<lparr>masterGain := False, compressor := False, effectsInputGain := False,
                  activeNotes := []\<rparr>))"

definition getWaveform :: "Synth \<Rightarrow> OscillatorType" where
  "getWaveform s = waveform s"

definition getVolume :: "Synth \<Rightarrow> real" where
  "getVolume s = volume s"

definition getActiveNoteCount :: "Synth \<Rightarrow> nat" where
  "getActiveNoteCount s = length (activeNotes s)"

definition Synth_isDestroyed :: "Synth \<Rightarrow> bool" where
  "Synth_isDestroyed s = destroyed s"

subsection \<open>Runs of the synth\<close>

datatype SynthCall =
    NoteOn int real
  | NoteOff int
  | StopAll
  | SetWaveform OscillatorType
  | SetVolume real
  | Bend int real
  | SetOctaveShift real
  | ToggleDelay bool
  | ToggleDistortion bool
  | ToggleVibrato bool
  | ToggleFilter bool
  | ToggleReverb bool
  | Destroy

fun applyCall :: "SynthCall \<Rightarrow> Synth \<Rightarrow> Synth" where
  "applyCall (NoteOn noteIndex freq) s = noteOn noteIndex freq s"
| "applyCall (NoteOff noteIndex) s = noteOff noteIndex s"
| "applyCall StopAll s = stopAll s"
| "applyCall (SetWaveform type) s = setWaveform type s"
| "applyCall (SetVolume v) s = setVolume v s"
| "applyCall (Bend noteIndex cents) s = bend noteIndex cents s"
| "applyCall (SetOctaveShift octaves) s = setOctaveShift octaves s"
| "applyCall (ToggleDelay enabled) s = toggleDelay enabled s"
| "applyCall (ToggleDistortion enabled) s = toggleDistortion enabled s"
| "applyCall (ToggleVibrato enabled) s = toggleVibrato enabled s"
| "applyCall (ToggleFilter enabled) s = toggleFilter enabled s"
| "applyCall (ToggleReverb enabled) s = toggleReverb enabled s"
| "applyCall Destroy s = Synth_destroy s"

inductive synthReachable :: "Synth \<Rightarrow> bool" where
  created: "synthReachable (Synth_new config)"
| called: "synthReachable s \<Longrightarrow> synthReachable (applyCall c s)"

subsection \<open>Vocabulary of the chord-input claims\<close>

text \<open>
  A recognised roman numeral, any case: one of I to VII with each letter in upper or
  lower case.
\<close>

definition sameLetter :: "char \<Rightarrow> char \<Rightarrow> bool" where
  "sameLetter c u =
     (c = u \<or> (c = CHR ''i'' \<and> u = CHR ''I'') \<or> (c = CHR ''v'' \<and> u = CHR ''V''))"

definition romanNumerals :: "string list" where
  "romanNumerals = [''I'', ''II'', ''III'', ''IV'', ''V'', ''VI'', ''VII'']"

definition isRomanNumeral :: "string \<Rightarrow> bool" where
  "isRomanNumeral str = list_ex (\<lambda>r. list_all2 sameLetter str r) romanNumerals"

text \<open>A root A to G, an optional sharp sign, an optional trailing m.\<close>

definition symbolPatternStrings :: "string list" where
  "symbolPatternStrings =
     concat (map (\<lambda>l. [[l], [l] @ ''m'', [l] @ ''#'', [l] @ ''#m'']) ''ABCDEFG'')"

definition matchesSymbolPattern :: "string \<Rightarrow> bool" where
  "matchesSymbolPattern str = (str \<in> set symbolPatternStrings)"

text \<open>One of the twelve note names, with an optional trailing m.\<close>

definition isNoteChordSymbol :: "string \<Rightarrow> bool" where
  "isNoteChordSymbol str =
     (str \<in> set (concat (map (\<lambda>n. [noteNameString n, noteNameString n @ ''m'']) NOTE_NAMES)))"

subsection \<open>Vocabulary of the sequencer claims\<close>

text \<open>
  From state \<open>s\<close> to state \<open>s'\<close> the sequencer has only added voices, their start times
  go up in the order in which they were scheduled, each lies between the \<open>nextNoteTime\<close>
  of \<open>s\<close> and that of \<open>s'\<close>, and \<open>nextNoteTime\<close> has not gone down.
\<close>

definition scheduledInOrder :: "BackingTrack \<Rightarrow> BackingTrack \<Rightarrow> bool" where
  "scheduledInOrder s s' =
     (nextNoteTime s \<le> nextNoteTime s' \<and>
      (\<exists>new. startedVoices s' = startedVoices s @ new \<and> sorted (map voice_start new) \<and>
         (\<forall>v \<in> set new. nextNoteTime s \<le> voice_start v \<and> voice_start v \<le> nextNoteTime s')))"

text \<open>A track with the defaults of the constructor (120 BPM, no swing) and the style \<open>eighth\<close>.\<close>

definition eighthTrack :: BackingTrack where
  "eighthTrack = projr (BackingTrack_new (emptyConfig\<lparr>cfg_style := Some eighth\<rparr>))"

subsection \<open>Vocabulary of the voice-engine claims\<close>

text \<open>The default \<open>config = {}\<close> of the constructor of the synth.\<close>

definition emptySynthConfig :: SynthConfig where
  "emptySynthConfig =
     \<lparr>cfg_waveform = None,
      cfg_envelope = \<lparr>opt_attack = None, opt_decay = None, opt_sustain = None, opt_release = None\<rparr>,
      cfg_volume = None\<rparr>"

text \<open>
  The serial chain over a list of units: chain input to the first unit, each unit to the
  next, the last unit to the master gain; chain input to master gain when there is no unit.
\<close>

fun chainLinks :: "nat list \<Rightarrow> (AudioNode \<times> AudioNode) list" where
  "chainLinks (u # v # rest) = (EffectOutput u, EffectInput v) # chainLinks (v # rest)"
| "chainLinks us = []"

definition chainPath :: "nat list \<Rightarrow> (AudioNode \<times> AudioNode) list" where
  "chainPath us =
     (if us = [] then [(EffectsInputGain, MasterGain)]
      else [(EffectsInputGain, EffectInput (hd us))] @ chainLinks us @
           [(EffectOutput (last us), MasterGain)])"

text \<open>
  The units the synth holds for distortion, filter, delay and reverb, in that order; the
  vibrato unit is not among them.
\<close>

fun optionList :: "'a option \<Rightarrow> 'a list" where
  "optionList None = []"
| "optionList (Some x) = [x]"

definition serialUnits :: "Synth \<Rightarrow> nat list" where
  "serialUnits s =
     optionList (node_distortion (effectNodes s)) @ optionList (node_filter (effectNodes s)) @
     optionList (node_delay (effectNodes s)) @ optionList (node_reverb (effectNodes s))"

text \<open>
  The connections that make up the chain: every connection out of the chain input, and
  every connection into or out of the input or output point of an effect unit.
\<close>

fun isEffectPoint :: "AudioNode \<Rightarrow> bool" where
  "isEffectPoint (EffectInput u) = True"
| "isEffectPoint (EffectOutput u) = True"
| "isEffectPoint n = False"

definition isChainEdge :: "AudioNode \<times> AudioNode \<Rightarrow> bool" where
  "isChainEdge e = (fst e = EffectsInputGain \<or> isEffectPoint (fst e) \<or> isEffectPoint (snd e))"

definition chainEdges :: "Synth \<Rightarrow> (AudioNode \<times> AudioNode) set" where
  "chainEdges s = set (filter isChainEdge (connections s))"

text \<open>A unit is held exactly for the flags that are enabled.\<close>

definition unitsMatchFlags :: "Synth \<Rightarrow> bool" where
  "unitsMatchFlags s =
     ((node_delay (effectNodes s) \<noteq> None) = fx_delay (effectsState s) \<and>
      (node_distortion (effectNodes s) \<noteq> None) = fx_distortion (effectsState s) \<and>
      (node_vibrato (effectNodes s) \<noteq> None) = fx_vibrato (effectsState s) \<and>
      (node_filter (effectNodes s) \<noteq> None) = fx_filter (effectsState s) \<and>
      (node_reverb (effectNodes s) \<noteq> None) = fx_reverb (effectsState s))"


subsection \<open>Auxiliary notions of the proofs\<close>

definition noEffectNodes :: EffectNodes where
  "noEffectNodes = \<lparr>node_delay = None, node_distortion = None, node_vibrato = None,
                      node_filter = None, node_reverb = None\<rparr>"

text \<open>The nodes that the cleanup of a unit disconnects.\<close>

fun unitPoints :: "nat option \<Rightarrow> AudioNode set" where
  "unitPoints None = {}"
| "unitPoints (Some u) = {EffectInput u, EffectOutput u}"

fun vibratoPoints :: "nat option \<Rightarrow> AudioNode set" where
  "vibratoPoints None = {}"
| "vibratoPoints (Some u) = {EffectInput u, EffectOutput u, LfoGain u}"

definition cleanedNodes :: "Synth \<Rightarrow> AudioNode set" where
  "cleanedNodes s =
     unitPoints (node_delay (effectNodes s)) \<union> unitPoints (node_distortion (effectNodes s)) \<union>
     vibratoPoints (node_vibrato (effectNodes s)) \<union> unitPoints (node_filter (effectNodes s)) \<union>
     unitPoints (node_reverb (effectNodes s))"

text \<open>The handles, the configuration and the life cycle of the engine are the same.\<close>

definition sameSettings :: "Synth \<Rightarrow> Synth \<Rightarrow> bool" where
  "sameSettings s s' =
     (audioContext s' = audioContext s \<and> masterGain s' = masterGain s \<and>
      compressor s' = compressor s \<and> effectsInputGain s' = effectsInputGain s \<and>
      waveform s' = waveform s \<and> envelope s' = envelope s \<and> volume s' = volume s \<and>
      destroyed s' = destroyed s \<and> octaveShift s' = octaveShift s \<and>
      effectsState s' = effectsState s \<and> contextsCreated s' = contextsCreated s \<and>
      contextsClosed s' = contextsClosed s \<and> masterGainValue s' = masterGainValue s)"

text \<open>The chain is wired over the serial units, which are those of the enabled flags.\<close>

definition chainWired :: "Synth \<Rightarrow> bool" where
  "chainWired s =
     (chainEdges s = set (chainPath (serialUnits s)) \<and> unitsMatchFlags s \<and>
      (case node_vibrato (effectNodes s) of None \<Rightarrow> True | Some v \<Rightarrow> v \<notin> set (serialUnits s)))"

text \<open>What holds of the synth between any two calls.\<close>

definition synthInv :: "Synth \<Rightarrow> bool" where
  "synthInv s =
     (distinct (map fst (activeNotes s)) \<and> contextsCreated s \<le> 1 \<and>
      (if audioContext s
       then \<not> destroyed s \<and> masterGain s \<and> effectsInputGain s \<and> contextsCreated s = 1 \<and>
            chainWired s
       else activeNotes s = [] \<and>
            (destroyed s \<or>
             (connections s = [] \<and> effectNodes s = noEffectNodes \<and> contextsCreated s = 0))) \<and>
      (if destroyed s then \<not> masterGain s \<and> contextsClosed s = contextsCreated s
       else contextsClosed s = 0))"

text \<open>A synth after a few calls, with delay, vibrato and reverb enabled and one voice.\<close>

definition busySynth :: Synth where
  "busySynth =
     toggleDelay True (toggleDistortion False (noteOn 0 440
       (toggleReverb True (toggleDistortion True (toggleVibrato True
         (Synth_new emptySynthConfig))))))"

section \<open>Properties of the scale collaborator\<close>

lemma noteToFrequency_pos: "0 < noteToFrequency note octave"
  by (simp add: noteToFrequency_def A4_FREQUENCY_def Let_def)

lemma chromatic_step_ratio:
  "noteToFrequency (getNoteAtOffset nt 1) (getOctaveForOffset octave (NOTE_SEMITONES nt) 1)
     / noteToFrequency nt octave = 2 powr (1 / 12)"
  by (cases nt)
     (simp_all add: noteToFrequency_def A4_FREQUENCY_def A4_MIDI_def Let_def getNoteAtOffset_def
        getOctaveForOffset_def NOTE_NAMES_def powr_diff [symmetric] field_simps)

text \<open>
  C8. \<open>noteToFrequency('A', 4)\<close> is 440 and \<open>noteToFrequency('A', 5)\<close> is 880; for every
  note name and octave, the frequency of the next chromatic step (the note one semitone up,
  in the next octave after B) divided by the note's frequency is \<open>2^(1/12)\<close>, so it agrees
  with \<open>2^(1/12)\<close> to six decimal digits and more.
\<close>

theorem noteToFrequency_equal_temperament:
  "noteToFrequency Note_A 4 = 440 \<and> noteToFrequency Note_A 5 = 880 \<and>
   (\<forall>note octave.
      noteToFrequency (getNoteAtOffset note 1) (getOctaveForOffset octave (NOTE_SEMITONES note) 1)
        / noteToFrequency note octave = 2 powr (1 / 12) \<and>
      \<bar>noteToFrequency (getNoteAtOffset note 1) (getOctaveForOffset octave (NOTE_SEMITONES note) 1)
        / noteToFrequency note octave - 2 powr (1 / 12)\<bar> < 1 / 10 ^ 6)"
proof -
  have a4: "noteToFrequency Note_A 4 = 440"
    by (simp add: noteToFrequency_def A4_FREQUENCY_def A4_MIDI_def)
  have a5: "noteToFrequency Note_A 5 = 880"
    by (simp add: noteToFrequency_def A4_FREQUENCY_def A4_MIDI_def)
  have ratio: "\<And>nt octave.
      noteToFrequency (getNoteAtOffset nt 1) (getOctaveForOffset octave (NOTE_SEMITONES nt) 1)
        / noteToFrequency nt octave = 2 powr (1 / 12) \<and>
      \<bar>noteToFrequency (getNoteAtOffset nt 1) (getOctaveForOffset octave (NOTE_SEMITONES nt) 1)
        / noteToFrequency nt octave - 2 powr (1 / 12)\<bar> < 1 / 10 ^ 6"
    unfolding chromatic_step_ratio by simp
  show ?thesis
    using a4 a5 ratio by blast
qed

theorem noteToFrequency_equal_temperament_witness:
  "noteToFrequency Note_C 5 / noteToFrequency Note_B 4 = 2 powr (1 / 12)"
proof -
  have "getNoteAtOffset Note_B 1 = Note_C"
    by (simp add: getNoteAtOffset_def NOTE_NAMES_def)
  moreover have "getOctaveForOffset 4 (NOTE_SEMITONES Note_B) 1 = 5"
    by (simp add: getOctaveForOffset_def)
  ultimately show ?thesis
    using noteToFrequency_equal_temperament by metis
qed

lemma toUpperChar_cases:
  "toUpperChar c = CHR ''I'' \<longleftrightarrow> c = CHR ''I'' \<or> c = CHR ''i''"
  "toUpperChar c = CHR ''V'' \<longleftrightarrow> c = CHR ''V'' \<or> c = CHR ''v''"
  "toUpperChar c \<noteq> CHR ''i''"
  "toUpperChar c \<noteq> CHR ''v''"
  by (auto simp: toUpperChar_def split: if_splits)

lemma roman_degree_iff: "ROMAN_TO_DEGREE (toUpperCase chord) \<noteq> None \<longleftrightarrow> isRomanNumeral chord"
  by (auto simp: ROMAN_TO_DEGREE_def toUpperCase_def isRomanNumeral_def romanNumerals_def
      sameLetter_def toUpperChar_cases map_eq_Cons_conv list_all2_Cons2 split: if_splits)

lemma parseChordSymbol_iff: "parseChordSymbol chord \<noteq> None \<longleftrightarrow> isNoteChordSymbol chord"
  by (cases chord)
     (auto simp: parseChordSymbol_def isNoteChordSymbol_def noteNameOfString_def NOTE_NAMES_def
        isLetterAtoG_def split: option.splits if_splits)

lemma resolveChord_Inl_iff:
  "resolveChord chord k octave = Inl e \<longleftrightarrow>
     e = InvalidChord chord \<and> \<not> isRomanNumeral chord \<and> \<not> isNoteChordSymbol chord"
  using roman_degree_iff [of chord] parseChordSymbol_iff [of chord]
  by (auto simp: resolveChord_def Let_def split: option.splits)

lemma resolveChord_Inr_iff:
  "(\<exists>c. resolveChord chord k octave = Inr c) \<longleftrightarrow> isRomanNumeral chord \<or> isNoteChordSymbol chord"
  using resolveChord_Inl_iff [of chord k octave]
  by (cases "resolveChord chord k octave") auto

lemmas resolveChord_eval =
  resolveChord_def toUpperCase_def toUpperChar_def ROMAN_TO_DEGREE_def MAJOR_SCALE_DEGREES_def
  NOTE_NAMES_def isMajorChord_def parseChordSymbol_def isLetterAtoG_def noteNameOfString_def
  endsWith_m_def Let_def

text \<open>
  C9, as the claim states it, fails: \<open>E#\<close> is a root letter A to G with a sharp sign, and
  \<open>resolveChord\<close> throws on it, because \<open>parseChordSymbol\<close> also requires the root to be
  a key of \<open>NOTE_SEMITONES\<close>.
\<close>

theorem resolveChord_E_sharp_counterexample:
  "isAsciiString ''E#'' \<and> matchesSymbolPattern ''E#'' \<and> \<not> isRomanNumeral ''E#'' \<and>
   resolveChord ''E#'' Note_C 4 = Inl (InvalidChord ''E#'')"
  by (simp add: resolveChord_eval matchesSymbolPattern_def symbolPatternStrings_def
      isRomanNumeral_def romanNumerals_def sameLetter_def isAsciiString_def)

text \<open>
  C9, amended. Resolving \<open>['I','IV','V','I']\<close> in G gives the roots G, C, D, G and
  resolving \<open>['ii','V','I']\<close> in C gives the symbols Dm, G, C. On an input string of
  ASCII characters, \<open>resolveChord\<close> throws (the error \<open>Invalid chord\<close> with its input)
  exactly when the input is neither a roman numeral I to VII in any case nor one of the
  twelve note names C, C#, D, D#, E, F, F#, G, G#, A, A#, B with an optional trailing m;
  every other ASCII input resolves to a chord. Nothing is stated of an input with a
  character outside ASCII, whose upper case is the Unicode one in the source.
\<close>

theorem resolveChord_throws_iff:
  "map_sum id (map root_note) (resolveChordProgression [''I'', ''IV'', ''V'', ''I''] Note_G 4)
     = Inr [Note_G, Note_C, Note_D, Note_G] \<and>
   map_sum id (map symbol) (resolveChordProgression [''ii'', ''V'', ''I''] Note_C 4)
     = Inr [''Dm'', ''G'', ''C''] \<and>
   (\<forall>chord k octave. isAsciiString chord \<longrightarrow>
      ((\<exists>e. resolveChord chord k octave = Inl e) \<longleftrightarrow>
         \<not> (isRomanNumeral chord \<or> isNoteChordSymbol chord)) \<and>
      ((\<exists>e. resolveChord chord k octave = Inl e) \<longleftrightarrow>
         resolveChord chord k octave = Inl (InvalidChord chord)) \<and>
      ((\<exists>c. resolveChord chord k octave = Inr c) \<longleftrightarrow>
         isRomanNumeral chord \<or> isNoteChordSymbol chord))"
proof -
  have roots: "map_sum id (map root_note)
      (resolveChordProgression [''I'', ''IV'', ''V'', ''I''] Note_G 4)
      = Inr [Note_G, Note_C, Note_D, Note_G]"
    by (simp add: resolveChord_eval)
  have symbols: "map_sum id (map symbol)
      (resolveChordProgression [''ii'', ''V'', ''I''] Note_C 4) = Inr [''Dm'', ''G'', ''C'']"
    by (simp add: resolveChord_eval)
  have throws: "\<And>chord k octave. (\<exists>e. resolveChord chord k octave = Inl e) \<longleftrightarrow>
      \<not> (isRomanNumeral chord \<or> isNoteChordSymbol chord)"
    by (simp add: resolveChord_Inl_iff)
  have which: "\<And>chord k octave. (\<exists>e. resolveChord chord k octave = Inl e) \<longleftrightarrow>
      resolveChord chord k octave = Inl (InvalidChord chord)"
    by (auto simp: resolveChord_Inl_iff)
  show ?thesis
    using roots symbols throws which resolveChord_Inr_iff by blast
qed

theorem resolveChord_throws_iff_witness:
  "isAsciiString ''F#m'' \<and> isAsciiString ''H'' \<and>
   isNoteChordSymbol ''F#m'' \<and> (\<exists>c. resolveChord ''F#m'' Note_D 4 = Inr c) \<and>
   \<not> isNoteChordSymbol ''H'' \<and> \<not> isRomanNumeral ''H'' \<and>
   resolveChord ''H'' Note_D 4 = Inl (InvalidChord ''H'')"
proof -
  have a: "isAsciiString ''F#m''" "isAsciiString ''H''" "isNoteChordSymbol ''F#m''"
    by (simp_all add: isAsciiString_def isNoteChordSymbol_def NOTE_NAMES_def)
  have b: "\<not> isNoteChordSymbol ''H''" "\<not> isRomanNumeral ''H''"
    by (simp_all add: isNoteChordSymbol_def NOTE_NAMES_def isRomanNumeral_def romanNumerals_def
        sameLetter_def)
  show ?thesis
    using a b resolveChord_throws_iff by blast
qed

section \<open>Properties of the sequencer\<close>

subsection \<open>The scheduling loop\<close>

lemma scheduleLoop_funpow:
  assumes "scheduleLoop e s = Some s'"
  shows "\<exists>n. s' = (scheduleBeat ^^ n) s \<and> \<not> nextNoteTime s' < e"
proof (rule scheduleLoop.raw_induct
    [where P = "\<lambda>e s s'. \<exists>n. s' = (scheduleBeat ^^ n) s \<and> \<not> nextNoteTime s' < e", OF _ assms])
  fix loop :: "real \<Rightarrow> BackingTrack \<Rightarrow> BackingTrack option" and e s s'
  assume IH: "\<And>e s s'. loop e s = Some s' \<Longrightarrow> \<exists>n. s' = (scheduleBeat ^^ n) s \<and> \<not> nextNoteTime s' < e"
    and eq: "(if nextNoteTime s < e then loop e (scheduleBeat s) else Some s) = Some s'"
  show "\<exists>n. s' = (scheduleBeat ^^ n) s \<and> \<not> nextNoteTime s' < e"
  proof (cases "nextNoteTime s < e")
    case True
    with eq have "loop e (scheduleBeat s) = Some s'" by simp
    from IH[OF this] obtain n where n: "s' = (scheduleBeat ^^ n) (scheduleBeat s)" "\<not> nextNoteTime s' < e" by blast
    then have "s' = (scheduleBeat ^^ Suc n) s" by (simp add: funpow_swap1)
    then show ?thesis using n(2) by blast
  next
    case False
    with eq have "s' = s" by simp
    then show ?thesis using False by (intro exI[of _ 0]) simp
  qed
qed

lemma playNotes_preserves:
  assumes "\<And>f t d s. g (playNote f t d s) = g s"
  shows "g (playNotes ns s) = g s"
  by (induction ns arbitrary: s) (simp_all add: assms)

lemma playNotes_fields [simp]:
  "tempo (playNotes notes s) = tempo s"
  "style (playNotes notes s) = style s"
  "instrument (playNotes notes s) = instrument s"
  "resolvedChords (playNotes notes s) = resolvedChords s"
  "bars (playNotes notes s) = bars s"
  "swing (playNotes notes s) = swing s"
  "key (playNotes notes s) = key s"
  "isPlaying (playNotes notes s) = isPlaying s"
  "bt_destroyed (playNotes notes s) = bt_destroyed s"
  "schedulerInterval (playNotes notes s) = schedulerInterval s"
  "nextNoteTime (playNotes notes s) = nextNoteTime s"
  "currentBeat (playNotes notes s) = currentBeat s"
  "currentChordIndex (playNotes notes s) = currentChordIndex s"
  "beatsPerChord (playNotes notes s) = beatsPerChord s"
  "stoppedOscillators (playNotes notes s) = stoppedOscillators s"
  "masterGainDisconnects (playNotes notes s) = masterGainDisconnects s"
  "compressorDisconnects (playNotes notes s) = compressorDisconnects s"
  by (rule playNotes_preserves, simp add: playNote_def Let_def)+

lemma scheduleBeat_fields [simp]:
  "tempo (scheduleBeat s) = tempo s"
  "style (scheduleBeat s) = style s"
  "instrument (scheduleBeat s) = instrument s"
  "resolvedChords (scheduleBeat s) = resolvedChords s"
  "bars (scheduleBeat s) = bars s"
  "swing (scheduleBeat s) = swing s"
  "key (scheduleBeat s) = key s"
  "isPlaying (scheduleBeat s) = isPlaying s"
  "bt_destroyed (scheduleBeat s) = bt_destroyed s"
  "schedulerInterval (scheduleBeat s) = schedulerInterval s"
  "beatsPerChord (scheduleBeat s) = beatsPerChord s"
  "stoppedOscillators (scheduleBeat s) = stoppedOscillators s"
  "masterGainDisconnects (scheduleBeat s) = masterGainDisconnects s"
  "compressorDisconnects (scheduleBeat s) = compressorDisconnects s"
  "nextNoteTime (scheduleBeat s) = nextNoteTime s + 60 / tempo s"
  "startedVoices (scheduleBeat s) = startedVoices (playNotes (getNotesForCurrentBeat s) s)"
  by (simp_all add: scheduleBeat_def advanceBeat_def Let_def)

lemma playNotes_voices:
  "\<exists>new. startedVoices (playNotes ns s) = startedVoices s @ new \<and>
         map voice_start new = map (\<lambda>n. nextNoteTime s + time n) ns"
proof (induction ns arbitrary: s)
  case Nil
  then show ?case by simp
next
  case (Cons a ns)
  let ?s1 = "playNote (frequency a) (nextNoteTime s + time a) (duration a) s"
  from Cons[of ?s1] obtain new where new: "startedVoices (playNotes ns ?s1) = startedVoices ?s1 @ new"
    "map voice_start new = map (\<lambda>n. nextNoteTime ?s1 + time n) ns" by blast
  obtain v where v: "startedVoices ?s1 = startedVoices s @ [v]" "voice_start v = nextNoteTime s + time a"
    by (simp add: playNote_def Let_def)
  have nt: "nextNoteTime ?s1 = nextNoteTime s" by (simp add: playNote_def Let_def)
  show ?case
    by (rule exI[of _ "v # new"]) (simp add: new v nt)
qed

lemma beat_times:
  assumes "0 < tempo s" "0 \<le> swing s" "swing s \<le> 100"
  shows "sorted (map time (getNotesForCurrentBeat s)) \<and>
         (\<forall>n \<in> set (getNotesForCurrentBeat s). 0 \<le> time n \<and> time n \<le> 60 / tempo s)"
proof -
  have B: "0 < 60 / tempo s" using assms by simp
  have sw: "0 \<le> swing s / 100 * (60 / tempo s / 3)" using assms by simp
  have "swing s / 100 * (60 / tempo s / 3) \<le> 1 * (60 / tempo s / 3)"
    using assms by (intro mult_right_mono) simp_all
  then have sw2: "60 / tempo s / 2 + swing s / 100 * (60 / tempo s / 3) \<le> 60 / tempo s"
    using B by (simp add: field_simps)
  have sw3: "0 \<le> 60 / tempo s / 2 + swing s / 100 * (60 / tempo s / 3)" using B sw by simp
  have h40: "40 / tempo s \<le> 60 / tempo s"
    using assms(1) by (intro divide_right_mono) simp_all
  have bl: "0 \<le> 40 / tempo s"
    using assms(1) by simp
  show ?thesis
    using B sw2 sw3 bl
    by (cases "style s") (simp_all add: getNotesForCurrentBeat_def Let_def h40)
qed

lemma scheduleBeat_inOrder:
  assumes "0 < tempo s" "0 \<le> swing s" "swing s \<le> 100"
  shows "scheduledInOrder s (scheduleBeat s)"
proof -
  let ?notes = "getNotesForCurrentBeat s"
  from playNotes_voices[of ?notes s] obtain new where
    new: "startedVoices (playNotes ?notes s) = startedVoices s @ new"
         "map voice_start new = map (\<lambda>n. nextNoteTime s + time n) ?notes" by blast
  from beat_times[OF assms] have st: "sorted (map time ?notes)"
    and rng: "\<forall>n \<in> set ?notes. 0 \<le> time n \<and> time n \<le> 60 / tempo s" by simp_all
  have "sorted (map (\<lambda>n. nextNoteTime s + time n) ?notes)"
    using st by (simp add: sorted_map)
  then have s1: "sorted (map voice_start new)" using new(2) by simp
  have "\<forall>x \<in> set (map voice_start new). nextNoteTime s \<le> x \<and> x \<le> nextNoteTime s + 60 / tempo s"
    unfolding new(2) using rng by auto
  then have s2: "\<forall>v \<in> set new. nextNoteTime s \<le> voice_start v \<and> voice_start v \<le> nextNoteTime s + 60 / tempo s"
    by simp
  show ?thesis
    unfolding scheduledInOrder_def using assms(1) new(1) s1 s2 by simp
qed

lemma scheduledInOrder_refl: "scheduledInOrder s s"
  by (simp add: scheduledInOrder_def)

lemma scheduledInOrder_trans:
  assumes "scheduledInOrder a b" "scheduledInOrder b c"
  shows "scheduledInOrder a c"
proof -
  from assms(1) obtain n1 where n1: "nextNoteTime a \<le> nextNoteTime b" "startedVoices b = startedVoices a @ n1"
    "sorted (map voice_start n1)" "\<forall>v \<in> set n1. nextNoteTime a \<le> voice_start v \<and> voice_start v \<le> nextNoteTime b"
    unfolding scheduledInOrder_def by blast
  from assms(2) obtain n2 where n2: "nextNoteTime b \<le> nextNoteTime c" "startedVoices c = startedVoices b @ n2"
    "sorted (map voice_start n2)" "\<forall>v \<in> set n2. nextNoteTime b \<le> voice_start v \<and> voice_start v \<le> nextNoteTime c"
    unfolding scheduledInOrder_def by blast
  have "sorted (map voice_start (n1 @ n2))"
    using n1(3,4) n2(3,4) by (fastforce simp: sorted_append)
  moreover have "\<forall>v \<in> set (n1 @ n2). nextNoteTime a \<le> voice_start v \<and> voice_start v \<le> nextNoteTime c"
    using n1(1,4) n2(1,4) by fastforce
  moreover have "startedVoices c = startedVoices a @ (n1 @ n2)" using n1(2) n2(2) by simp
  ultimately show ?thesis
    unfolding scheduledInOrder_def using n1(1) n2(1) by (metis order_trans)
qed


lemma scheduleLoop_terminates:
  assumes "0 < tempo s" "0 \<le> swing s" "swing s \<le> 100"
  shows "\<exists>s'. scheduleLoop e s = Some s' \<and> scheduledInOrder s s' \<and>
           tempo s' = tempo s \<and> swing s' = swing s \<and> isPlaying s' = isPlaying s"
  using assms
proof (induction "nat \<lceil>(e - nextNoteTime s) * tempo s / 60\<rceil>" arbitrary: s rule: less_induct)
  case less
  show ?case
  proof (cases "nextNoteTime s < e")
    case False
    then have "scheduleLoop e s = Some s"
      by (subst scheduleLoop.simps) simp
    then show ?thesis by (simp add: scheduledInOrder_refl)
  next
    case True
    let ?s1 = "scheduleBeat s"
    have pos: "0 < (e - nextNoteTime s) * tempo s / 60"
      using True less.prems(1) by simp
    have eq: "(e - nextNoteTime ?s1) * tempo ?s1 / 60 = (e - nextNoteTime s) * tempo s / 60 - 1"
      using less.prems(1) by (simp add: field_simps)
    have "nat \<lceil>(e - nextNoteTime ?s1) * tempo ?s1 / 60\<rceil> < nat \<lceil>(e - nextNoteTime s) * tempo s / 60\<rceil>"
      unfolding eq using pos by linarith
    from less.hyps[OF this] less.prems
    obtain s' where s': "scheduleLoop e ?s1 = Some s'" "scheduledInOrder ?s1 s'"
      "tempo s' = tempo s" "swing s' = swing s" "isPlaying s' = isPlaying s"
      by auto
    have "scheduleLoop e s = Some s'"
      using True s'(1) by (subst scheduleLoop.simps) simp
    moreover have "scheduledInOrder s s'"
      using scheduledInOrder_trans[OF scheduleBeat_inOrder[OF less.prems] s'(2)] .
    ultimately show ?thesis using s' by simp
  qed
qed

lemma scheduledInOrder_same:
  "nextNoteTime s' = nextNoteTime s \<Longrightarrow> startedVoices s' = startedVoices s \<Longrightarrow> scheduledInOrder s s'"
  by (simp add: scheduledInOrder_def)

lemma playback_step:
  assumes "withinPlayback ev" "isPlaying s" "20 \<le> tempo s" "tempo s \<le> 300"
    "0 \<le> swing s" "swing s \<le> 100"
  shows "\<exists>s'. applyEvent ev s = Some s' \<and> scheduledInOrder s s' \<and> isPlaying s' \<and>
           20 \<le> tempo s' \<and> tempo s' \<le> 300 \<and> 0 \<le> swing s' \<and> swing s' \<le> 100"
proof (cases ev)
  case (Tick now)
  have "0 < tempo s" using assms(3) by simp
  from scheduleLoop_terminates[OF this assms(5,6), of "now + LOOKAHEAD_SECONDS"]
  show ?thesis using Tick assms by (auto simp: schedule_def Let_def scheduledInOrder_refl)
next
  case (CallSetChords progression k)
  then show ?thesis using assms
    by (auto simp: setChords_def Let_def scheduledInOrder_same split: option.splits sum.splits)
qed (use assms in \<open>auto simp: play_def setTempo_def setStyle_def setSwing_def setInstrument_def
      oscillatorEnded_def updateBeatsPerChord_def Let_def scheduledInOrder_same\<close>)

lemma playback_run:
  assumes "list_all withinPlayback evs" "isPlaying s" "20 \<le> tempo s" "tempo s \<le> 300"
    "0 \<le> swing s" "swing s \<le> 100"
  shows "\<exists>s'. runEvents evs s = Some s' \<and> scheduledInOrder s s'"
  using assms
proof (induction evs arbitrary: s)
  case Nil
  then show ?case by (simp add: scheduledInOrder_refl)
next
  case (Cons ev evs)
  from Cons.prems have ev: "withinPlayback ev" and evs: "list_all withinPlayback evs" by simp_all
  from playback_step[OF ev Cons.prems(2-6)] obtain s1 where
    s1: "applyEvent ev s = Some s1" "scheduledInOrder s s1" "isPlaying s1"
      "20 \<le> tempo s1" "tempo s1 \<le> 300" "0 \<le> swing s1" "swing s1 \<le> 100" by blast
  from Cons.IH[OF evs s1(3-7)] obtain s' where s': "runEvents evs s1 = Some s'" "scheduledInOrder s1 s'"
    by blast
  show ?case
    using s1(1) s'(1) scheduledInOrder_trans[OF s1(2) s'(2)] by simp
qed


lemmas backing_eval =
  BackingTrack_new_def emptyConfig_def resolveChords_def resolveChord_eval
  DEFAULT_TEMPO_def DEFAULT_STYLE_def DEFAULT_INSTRUMENT_def DEFAULT_BARS_def DEFAULT_SWING_def
  DEFAULT_KEY_def LOOKAHEAD_SECONDS_def updateBeatsPerChord_def play_def stop_def setTempo_def
  setChords_def setStyle_def setSwing_def setInstrument_def BackingTrack_destroy_def getNotesForCurrentBeat_def
  getChordTones_def playNote_def oscillatorEnded_def advanceBeat_def scheduleBeat_def schedule_def

subsection \<open>Order of the scheduled events\<close>

text \<open>
  C1, as the claim states it, fails: \<open>play()\<close> sets \<open>nextNoteTime\<close> to the audio clock, so
  a \<open>stop()\<close> and \<open>play()\<close> between two ticks takes it back. At 120 BPM with the style
  \<open>eighth\<close> and no swing, the tick at time 0 schedules voices at 0 and 1/4 and leaves
  \<open>nextNoteTime\<close> at 1/2; after \<open>stop()\<close> and \<open>play()\<close> at time 1/20 it is 1/20, and the
  next tick schedules voices at 1/20 and 3/10.
\<close>

theorem playback_restart_counterexample:
  "map_option tempo
     (runEvents [CallPlay 0, Tick 0, CallStop, CallPlay (1 / 20), Tick (1 / 20)] eighthTrack)
     = Some 120 \<and>
   map_option swing
     (runEvents [CallPlay 0, Tick 0, CallStop, CallPlay (1 / 20), Tick (1 / 20)] eighthTrack)
     = Some 0 \<and>
   map_option nextNoteTime (runEvents [CallPlay 0, Tick 0] eighthTrack) = Some (1 / 2) \<and>
   map_option nextNoteTime (runEvents [CallPlay 0, Tick 0, CallStop, CallPlay (1 / 20)] eighthTrack)
     = Some (1 / 20) \<and>
   map_option (map voice_start \<circ> startedVoices)
     (runEvents [CallPlay 0, Tick 0, CallStop, CallPlay (1 / 20), Tick (1 / 20)] eighthTrack)
     = Some [0, 1 / 4, 1 / 20, 3 / 10] \<and>
   \<not> sorted [0, 1 / 4, 1 / 20, 3 / 10 :: real]"
  by (simp add: eighthTrack_def backing_eval scheduleLoop.simps)

text \<open>
  C1, amended. Within one playback of the sequencer (the timer ticks, setter calls, further
  \<open>play()\<close> calls and oscillator ends that follow a \<open>play()\<close>, up to the next \<open>stop()\<close> or
  \<open>destroy()\<close>) with the tempo in [20, 300] and the swing in [0, 100]: every tick ends, the
  start times of the voices scheduled form a non-decreasing sequence, within a tick and
  from one tick to the next, and \<open>nextNoteTime\<close> does not decrease.
\<close>

theorem playback_schedule_order:
  assumes "list_all withinPlayback evs" "isPlaying s" "20 \<le> tempo s" "tempo s \<le> 300"
    "0 \<le> swing s" "swing s \<le> 100"
  shows "\<exists>s'. runEvents evs s = Some s' \<and> scheduledInOrder s s'"
  using playback_run[OF assms] .

theorem playback_schedule_order_witness:
  "isPlaying (play 0 eighthTrack) \<and> tempo (play 0 eighthTrack) = 120 \<and>
   swing (play 0 eighthTrack) = 0 \<and>
   (\<exists>s'. runEvents [Tick 0, CallSetTempo 60, CallSetSwing 50, Tick (1 / 2), CallPlay 0, Tick 1]
            (play 0 eighthTrack) = Some s' \<and>
         scheduledInOrder (play 0 eighthTrack) s' \<and>
         map voice_start (startedVoices s') = [0, 1 / 4, 1 / 2, 7 / 6])"
proof -
  have a: "isPlaying (play 0 eighthTrack)" "tempo (play 0 eighthTrack) = 120"
    "swing (play 0 eighthTrack) = 0"
    by (simp_all add: eighthTrack_def backing_eval)
  have b: "list_all withinPlayback
     [Tick 0, CallSetTempo 60, CallSetSwing 50, Tick (1 / 2), CallPlay 0, Tick 1]"
    by simp
  have c: "map_option (map voice_start \<circ> startedVoices)
      (runEvents [Tick 0, CallSetTempo 60, CallSetSwing 50, Tick (1 / 2), CallPlay 0, Tick 1]
         (play 0 eighthTrack)) = Some [0, 1 / 4, 1 / 2, 7 / 6]"
    by (simp add: eighthTrack_def backing_eval scheduleLoop.simps)
  from playback_schedule_order[OF b a(1)] a(2,3) c
  show ?thesis using a by auto
qed

subsection \<open>The events of one beat\<close>

text \<open>
  C2, as the claim states it, fails for the style \<open>eighth\<close>: the swing is a percentage, and
  the code divides it by 100. At 120 BPM with a swing of 50 the second event is 1/3 s after
  the beat, where \<open>B/2 + swing * B/3\<close> is 103/12 s.
\<close>

theorem eighth_swing_counterexample:
  "style (setSwing 50 eighthTrack) = eighth \<and> tempo (setSwing 50 eighthTrack) = 120 \<and>
   swing (setSwing 50 eighthTrack) = 50 \<and>
   map time (getNotesForCurrentBeat (setSwing 50 eighthTrack)) = [0, 1 / 3] \<and>
   60 / tempo (setSwing 50 eighthTrack) / 2
     + swing (setSwing 50 eighthTrack) * (60 / tempo (setSwing 50 eighthTrack)) / 3 = 103 / 12"
  by (simp add: eighthTrack_def backing_eval)

text \<open>
  C2, amended. With the beat duration \<open>B = 60/tempo\<close> and the root frequency \<open>R\<close> of the
  current chord at the octave of the instrument, the events (offset, duration) of a beat
  are: quarter, (0, 0.8B); eighth, (0, 0.4B) and (B/2 + (swing/100) * B/3, 0.35B); blues,
  (0, 0.5B) and (2B/3, 0.25B); drone, (0, B * beatsPerChord * 0.95) on beat 0 of the chord
  and nothing on the other beats; arpeggio, one event of duration 0.8B with the frequency
  of the root, the third or the fifth as the beat counter is 0, 1 or 2 modulo 3, the third
  being \<open>R * 2^(4/12)\<close> for a major and \<open>R * 2^(3/12)\<close> for a minor chord and the fifth
  \<open>R * 2^(7/12)\<close>. Every event but the arpeggio's has the frequency \<open>R\<close>.
\<close>

theorem getNotesForCurrentBeat_table:
  assumes "currentChordIndex s < length (resolvedChords s)"
  shows
  "(let B = 60 / tempo s;
        chord = resolvedChords s ! currentChordIndex s;
        R = noteToFrequency (root_note chord) (4 + octaveOffset (INSTRUMENT_CONFIG (instrument s)));
        third = (if isMajor chord then R * 2 powr (4 / 12) else R * 2 powr (3 / 12));
        fifth = R * 2 powr (7 / 12);
        events = getNotesForCurrentBeat s
    in (style s = quarter \<longrightarrow>
          events = [\<lparr>time = 0, frequency = R, duration = 8 / 10 * B\<rparr>]) \<and>
       (style s = eighth \<longrightarrow>
          events = [\<lparr>time = 0, frequency = R, duration = 4 / 10 * B\<rparr>,
                    \<lparr>time = B / 2 + swing s / 100 * (B / 3), frequency = R,
                     duration = 35 / 100 * B\<rparr>]) \<and>
       (style s = blues \<longrightarrow>
          events = [\<lparr>time = 0, frequency = R, duration = 5 / 10 * B\<rparr>,
                    \<lparr>time = 2 * B / 3, frequency = R, duration = 25 / 100 * B\<rparr>]) \<and>
       (style s = drone \<and> currentBeat s = 0 \<longrightarrow>
          events = [\<lparr>time = 0, frequency = R, duration = B * beatsPerChord s * (95 / 100)\<rparr>]) \<and>
       (style s = drone \<and> currentBeat s \<noteq> 0 \<longrightarrow> events = []) \<and>
       (style s = arpeggio \<longrightarrow>
          events = [\<lparr>time = 0,
                     frequency = [R, third, fifth] ! (currentBeat s mod 3),
                     duration = 8 / 10 * B\<rparr>]))"
  using assms
  by (cases "style s") (simp_all add: getNotesForCurrentBeat_def getChordTones_def Let_def)

theorem getNotesForCurrentBeat_table_witness:
  "currentChordIndex eighthTrack < length (resolvedChords eighthTrack) \<and>
   style eighthTrack = eighth \<and> tempo eighthTrack = 120 \<and>
   map (\<lambda>n. (time n, duration n)) (getNotesForCurrentBeat eighthTrack)
     = [(0, 1 / 5), (1 / 4, 7 / 40)] \<and>
   map (\<lambda>n. (time n, duration n)) (getNotesForCurrentBeat (setStyle quarter eighthTrack))
     = [(0, 2 / 5)]"
proof -
  have a: "currentChordIndex eighthTrack < length (resolvedChords eighthTrack)"
    "style eighthTrack = eighth" "tempo eighthTrack = 120" "swing eighthTrack = 0"
    by (simp_all add: eighthTrack_def backing_eval)
  have b: "currentChordIndex (setStyle quarter eighthTrack)
      < length (resolvedChords (setStyle quarter eighthTrack))"
    "style (setStyle quarter eighthTrack) = quarter" "tempo (setStyle quarter eighthTrack) = 120"
    by (simp_all add: eighthTrack_def backing_eval)
  show ?thesis
    using getNotesForCurrentBeat_table[OF a(1)] getNotesForCurrentBeat_table[OF b(1)] a b
    by (simp add: Let_def)
qed

subsection \<open>The chord list\<close>

lemma resolveChordProgression_length:
  "resolveChordProgression progression k octave = Inr cs \<Longrightarrow> length cs = length progression"
  by (induction progression arbitrary: cs) (auto split: sum.splits)

lemma resolveChords_nonempty: "resolveChords progression k = Inr cs \<Longrightarrow> cs \<noteq> []"
  using resolveChordProgression_length[of "[''I'']" k 4 cs]
    resolveChordProgression_length[of progression k 4 cs]
  by (auto simp: resolveChords_def simp del: resolveChordProgression.simps split: if_splits)

lemma resolveChords_empty:
  "resolveChords [] k = Inr [\<lparr>root_note = k, isMajor = True, symbol = noteNameString k,
      chord_frequency = noteToFrequency k 4\<rparr>]"
  by (cases k) (simp_all add: resolveChords_def resolveChord_eval)

lemma funpow_invariant:
  assumes "\<And>x. P x \<Longrightarrow> P (f x)" "P x"
  shows "P ((f ^^ n) x)"
  by (induction n) (simp_all add: assms)

text \<open>An invariant of the reachable states: it holds after the constructor, and every
  method, every round of the scheduling loop and every end of an oscillator keeps it.\<close>

lemma backingReachable_invariant:
  assumes reach: "backingReachable s"
    and new: "\<And>config s. BackingTrack_new config = Inr s \<Longrightarrow> P s"
    and beat: "\<And>s. P s \<Longrightarrow> P (scheduleBeat s)"
    and call: "\<And>ev s s'. P s \<Longrightarrow> \<forall>now. ev \<noteq> Tick now \<Longrightarrow> applyEvent ev s = Some s' \<Longrightarrow> P s'"
  shows "P s"
  using reach
proof (induction rule: backingReachable.induct)
  case (constructed config s)
  then show ?case by (rule new)
next
  case (event s ev s')
  show ?case
  proof (cases "\<exists>now. ev = Tick now")
    case False
    then show ?thesis using call[OF event.IH _ event.hyps(2)] by blast
  next
    case True
    then obtain now where ev: "ev = Tick now" by blast
    show ?thesis
    proof (cases "schedulerInterval s")
      case False
      then show ?thesis using event ev by simp
    next
      case True
      then have "scheduleLoop (now + LOOKAHEAD_SECONDS) s = Some s'"
        using event.hyps(2) ev by (simp add: schedule_def)
      from scheduleLoop_funpow[OF this] obtain n where "s' = (scheduleBeat ^^ n) s" by blast
      then show ?thesis using funpow_invariant[of P scheduleBeat, OF beat event.IH] by simp
    qed
  qed
qed

lemma scheduleBeat_chordIndex:
  assumes "resolvedChords s \<noteq> []" "currentChordIndex s < length (resolvedChords s)"
  shows "currentChordIndex (scheduleBeat s) < length (resolvedChords s)"
  using assms by (simp add: scheduleBeat_def advanceBeat_def Let_def)

lemma chordIndex_invariant:
  assumes "backingReachable s"
  shows "resolvedChords s \<noteq> [] \<and> currentChordIndex s < length (resolvedChords s)"
  using assms
proof (rule backingReachable_invariant)
  fix config and s :: BackingTrack
  assume "BackingTrack_new config = Inr s"
  then show "resolvedChords s \<noteq> [] \<and> currentChordIndex s < length (resolvedChords s)"
    by (auto simp: BackingTrack_new_def updateBeatsPerChord_def split: sum.splits
        dest: resolveChords_nonempty)
next
  fix s :: BackingTrack
  assume "resolvedChords s \<noteq> [] \<and> currentChordIndex s < length (resolvedChords s)"
  then show "resolvedChords (scheduleBeat s) \<noteq> [] \<and>
      currentChordIndex (scheduleBeat s) < length (resolvedChords (scheduleBeat s))"
    using scheduleBeat_chordIndex[of s] by simp
next
  fix ev and s s' :: BackingTrack
  assume inv: "resolvedChords s \<noteq> [] \<and> currentChordIndex s < length (resolvedChords s)"
    and "\<forall>now. ev \<noteq> Tick now" and "applyEvent ev s = Some s'"
  then show "resolvedChords s' \<noteq> [] \<and> currentChordIndex s' < length (resolvedChords s')"
    by (cases ev)
       (auto simp: play_def stop_def setTempo_def setChords_def setStyle_def setSwing_def
          setInstrument_def BackingTrack_destroy_def oscillatorEnded_def updateBeatsPerChord_def
          Let_def split: option.splits sum.splits if_splits dest: resolveChords_nonempty)
qed

text \<open>
  C10. In every state the sequencer can reach (after the constructor, any calls of
  \<open>play\<close>, \<open>stop\<close>, the setters and \<open>destroy\<close>, any timer ticks and oscillator ends) the
  resolved chord list is not empty and \<open>currentChordIndex\<close> is an index into it; an empty
  progression given to \<open>setChords\<close> resolves to the single tonic chord of the key.
\<close>

theorem resolvedChords_never_empty:
  assumes "backingReachable s"
  shows "resolvedChords s \<noteq> [] \<and> currentChordIndex s < length (resolvedChords s) \<and>
         map symbol (resolvedChords (fst (setChords [] None s))) = [noteNameString (key s)] \<and>
         snd (setChords [] None s) = None"
  using chordIndex_invariant[OF assms]
  by (simp add: setChords_def resolveChords_empty)

theorem resolvedChords_never_empty_witness:
  "backingReachable (the (runEvents [CallPlay 0, Tick 0, CallSetChords [] (Some Note_G)] eighthTrack)) \<and>
   map symbol (resolvedChords
     (the (runEvents [CallPlay 0, Tick 0, CallSetChords [] (Some Note_G)] eighthTrack))) = [''G''] \<and>
   currentChordIndex
     (the (runEvents [CallPlay 0, Tick 0, CallSetChords [] (Some Note_G)] eighthTrack)) = 0"
proof -
  have new: "BackingTrack_new (emptyConfig\<lparr>cfg_style := Some eighth\<rparr>) = Inr eighthTrack"
    by (simp add: eighthTrack_def backing_eval)
  have r0: "backingReachable eighthTrack"
    by (rule backingReachable.constructed[OF new])
  have r1: "backingReachable (play 0 eighthTrack)"
    by (rule backingReachable.event[OF r0, of "CallPlay 0"]) simp
  obtain s2 where s2: "applyEvent (Tick 0) (play 0 eighthTrack) = Some s2"
    by (simp add: eighthTrack_def backing_eval scheduleLoop.simps)
  have r2: "backingReachable s2"
    by (rule backingReachable.event[OF r1 s2])
  have r3: "backingReachable (fst (setChords [] (Some Note_G) s2))"
    by (rule backingReachable.event[OF r2, of "CallSetChords [] (Some Note_G)"]) simp
  have run: "runEvents [CallPlay 0, Tick 0, CallSetChords [] (Some Note_G)] eighthTrack
      = Some (fst (setChords [] (Some Note_G) s2))"
    using s2 by simp
  have "map symbol (resolvedChords (fst (setChords [] (Some Note_G) s2))) = [''G'']"
    by (simp add: setChords_def resolveChords_empty)
  then show ?thesis
    using resolvedChords_never_empty[OF r3] r3 run
    by (simp add: setChords_def resolveChords_empty)
qed

section \<open>Properties of the voice engine\<close>

subsection \<open>Cleanup and creation of the effect units\<close>

lemma cleanupEffect_eq:
  "cleanupEffect u s = s\<lparr>connections := filter (\<lambda>e. fst e \<notin> unitPoints (Some u)) (connections s)\<rparr>"
  by (simp add: cleanupEffect_def disconnectAll_def conj_commute)

lemma cleanupVibrato_eq:
  "cleanupVibrato u s = s\<lparr>connections := filter (\<lambda>e. fst e \<notin> vibratoPoints (Some u)) (connections s)\<rparr>"
  by (simp add: cleanupVibrato_def cleanupEffect_def disconnectAll_def conj_commute conj_left_commute)

lemma effectNodes_update_same:
  "node_delay n = x \<Longrightarrow> n\<lparr>node_delay := x\<rparr> = n"
  "node_distortion n = x \<Longrightarrow> n\<lparr>node_distortion := x\<rparr> = n"
  "node_vibrato n = x \<Longrightarrow> n\<lparr>node_vibrato := x\<rparr> = n"
  "node_filter n = x \<Longrightarrow> n\<lparr>node_filter := x\<rparr> = n"
  "node_reverb n = x \<Longrightarrow> n\<lparr>node_reverb := x\<rparr> = n"
  by auto

lemma cleanupDelayNode_eq:
  "cleanupDelayNode s = s\<lparr>effectNodes := (effectNodes s)\<lparr>node_delay := None\<rparr>,
      connections := filter (\<lambda>e. fst e \<notin> unitPoints (node_delay (effectNodes s))) (connections s)\<rparr>"
  by (cases "node_delay (effectNodes s)")
     (simp_all add: cleanupDelayNode_def cleanupEffect_eq effectNodes_update_same)

lemma cleanupDistortionNode_eq:
  "cleanupDistortionNode s = s\<lparr>effectNodes := (effectNodes s)\<lparr>node_distortion := None\<rparr>,
      connections := filter (\<lambda>e. fst e \<notin> unitPoints (node_distortion (effectNodes s))) (connections s)\<rparr>"
  by (cases "node_distortion (effectNodes s)")
     (simp_all add: cleanupDistortionNode_def cleanupEffect_eq effectNodes_update_same)

lemma cleanupVibratoNode_eq:
  "cleanupVibratoNode s = s\<lparr>effectNodes := (effectNodes s)\<lparr>node_vibrato := None\<rparr>,
      connections := filter (\<lambda>e. fst e \<notin> vibratoPoints (node_vibrato (effectNodes s))) (connections s)\<rparr>"
  by (cases "node_vibrato (effectNodes s)")
     (simp_all add: cleanupVibratoNode_def cleanupVibrato_eq effectNodes_update_same)

lemma cleanupFilterNode_eq:
  "cleanupFilterNode s = s\<lparr>effectNodes := (effectNodes s)\<lparr>node_filter := None\<rparr>,
      connections := filter (\<lambda>e. fst e \<notin> unitPoints (node_filter (effectNodes s))) (connections s)\<rparr>"
  by (cases "node_filter (effectNodes s)")
     (simp_all add: cleanupFilterNode_def cleanupEffect_eq effectNodes_update_same)

lemma cleanupReverbNode_eq:
  "cleanupReverbNode s = s\<lparr>effectNodes := (effectNodes s)\<lparr>node_reverb := None\<rparr>,
      connections := filter (\<lambda>e. fst e \<notin> unitPoints (node_reverb (effectNodes s))) (connections s)\<rparr>"
  by (cases "node_reverb (effectNodes s)")
     (simp_all add: cleanupReverbNode_def cleanupEffect_eq effectNodes_update_same)

lemmas cleanup_steps = cleanupDelayNode_eq cleanupDistortionNode_eq cleanupVibratoNode_eq
  cleanupFilterNode_eq cleanupReverbNode_eq

lemma cleanupAllEffects_eq:
  "cleanupAllEffects s = s\<lparr>effectNodes := noEffectNodes,
      connections := filter (\<lambda>e. fst e \<notin> cleanedNodes s) (connections s)\<rparr>"
proof -
  have n: "(effectNodes s)\<lparr>node_delay := None, node_distortion := None, node_vibrato := None,
      node_filter := None, node_reverb := None\<rparr> = noEffectNodes"
    by (simp add: noEffectNodes_def)
  have f: "(\<lambda>e. fst e \<notin> unitPoints (node_delay (effectNodes s)) \<and>
             fst e \<notin> unitPoints (node_distortion (effectNodes s)) \<and>
             fst e \<notin> vibratoPoints (node_vibrato (effectNodes s)) \<and>
             fst e \<notin> unitPoints (node_filter (effectNodes s)) \<and>
             fst e \<notin> unitPoints (node_reverb (effectNodes s))) = (\<lambda>e. fst e \<notin> cleanedNodes s)"
    by (simp add: cleanedNodes_def)
  show ?thesis
    unfolding cleanupAllEffects_def cleanup_steps
    by (simp add: n conj_commute conj_left_commute f[symmetric] del: unitPoints.simps vibratoPoints.simps)
qed


lemma createDistortionIfEnabled_eq:
  "createDistortionIfEnabled (s, a) =
     (s\<lparr>nodesCreated := nodesCreated s + (if fx_distortion (effectsState s) then 1 else 0),
        effectNodes := (effectNodes s)\<lparr>node_distortion :=
          (if fx_distortion (effectsState s) then Some (nodesCreated s)
           else node_distortion (effectNodes s))\<rparr>\<rparr>,
      a @ (if fx_distortion (effectsState s) then [nodesCreated s] else []))"
  by (simp add: createDistortionIfEnabled_def createEffect_def effectNodes_update_same)

lemma createFilterIfEnabled_eq:
  "createFilterIfEnabled (s, a) =
     (s\<lparr>nodesCreated := nodesCreated s + (if fx_filter (effectsState s) then 1 else 0),
        effectNodes := (effectNodes s)\<lparr>node_filter :=
          (if fx_filter (effectsState s) then Some (nodesCreated s)
           else node_filter (effectNodes s))\<rparr>\<rparr>,
      a @ (if fx_filter (effectsState s) then [nodesCreated s] else []))"
  by (simp add: createFilterIfEnabled_def createEffect_def effectNodes_update_same)

lemma createVibratoIfEnabled_eq:
  "createVibratoIfEnabled (s, a) =
     (s\<lparr>nodesCreated := nodesCreated s + (if fx_vibrato (effectsState s) then 1 else 0),
        effectNodes := (effectNodes s)\<lparr>node_vibrato :=
          (if fx_vibrato (effectsState s) then Some (nodesCreated s)
           else node_vibrato (effectNodes s))\<rparr>\<rparr>,
      a)"
  by (simp add: createVibratoIfEnabled_def createEffect_def effectNodes_update_same)

lemma createDelayIfEnabled_eq:
  "createDelayIfEnabled (s, a) =
     (s\<lparr>nodesCreated := nodesCreated s + (if fx_delay (effectsState s) then 1 else 0),
        effectNodes := (effectNodes s)\<lparr>node_delay :=
          (if fx_delay (effectsState s) then Some (nodesCreated s)
           else node_delay (effectNodes s))\<rparr>\<rparr>,
      a @ (if fx_delay (effectsState s) then [nodesCreated s] else []))"
  by (simp add: createDelayIfEnabled_def createEffect_def effectNodes_update_same)

lemma createReverbIfEnabled_eq:
  "createReverbIfEnabled (s, a) =
     (s\<lparr>nodesCreated := nodesCreated s + (if fx_reverb (effectsState s) then 1 else 0),
        effectNodes := (effectNodes s)\<lparr>node_reverb :=
          (if fx_reverb (effectsState s) then Some (nodesCreated s)
           else node_reverb (effectNodes s))\<rparr>\<rparr>,
      a @ (if fx_reverb (effectsState s) then [nodesCreated s] else []))"
  by (simp add: createReverbIfEnabled_def createEffect_def effectNodes_update_same)

lemmas create_steps = createDistortionIfEnabled_eq createFilterIfEnabled_eq
  createVibratoIfEnabled_eq createDelayIfEnabled_eq createReverbIfEnabled_eq

lemma createActiveEffects_units:
  assumes "effectNodes s = noEffectNodes"
  shows "serialUnits (fst (createActiveEffects s)) = snd (createActiveEffects s) \<and>
         unitsMatchFlags (fst (createActiveEffects s)) \<and>
         (\<forall>v. node_vibrato (effectNodes (fst (createActiveEffects s))) = Some v \<longrightarrow>
              v \<notin> set (snd (createActiveEffects s)))"
  using assms
  by (cases "fx_distortion (effectsState s)"; cases "fx_filter (effectsState s)";
      cases "fx_vibrato (effectsState s)"; cases "fx_delay (effectsState s)";
      cases "fx_reverb (effectsState s)")
     (simp_all add: createActiveEffects_def create_steps serialUnits_def unitsMatchFlags_def
        noEffectNodes_def)


subsection \<open>Frames\<close>

lemma sameSettings_refl [simp]: "sameSettings s s"
  by (simp add: sameSettings_def)

lemma sameSettings_trans: "sameSettings a b \<Longrightarrow> sameSettings b c \<Longrightarrow> sameSettings a c"
  by (simp add: sameSettings_def)

lemma sameSettings_primitives [simp]:
  "sameSettings s (connect a b s)"
  "sameSettings s (disconnectAll a s)"
  "sameSettings s (disconnectFrom a b s)"
  by (simp_all add: sameSettings_def connect_def disconnectAll_def disconnectFrom_def)

lemma cleanupAllEffects_same [simp]: "sameSettings s (cleanupAllEffects s)"
  by (simp add: cleanupAllEffects_eq sameSettings_def)

lemma cleanupAllEffects_fields [simp]:
  "activeNotes (cleanupAllEffects s) = activeNotes s"
  "oscillatorsStopped (cleanupAllEffects s) = oscillatorsStopped s"
  "effectNodes (cleanupAllEffects s) = noEffectNodes"
  "connections (cleanupAllEffects s) = filter (\<lambda>e. fst e \<notin> cleanedNodes s) (connections s)"
  by (simp_all add: cleanupAllEffects_eq)

lemma create_step_same:
  "sameSettings (fst sa) (fst (createDistortionIfEnabled sa))"
  "sameSettings (fst sa) (fst (createFilterIfEnabled sa))"
  "sameSettings (fst sa) (fst (createVibratoIfEnabled sa))"
  "sameSettings (fst sa) (fst (createDelayIfEnabled sa))"
  "sameSettings (fst sa) (fst (createReverbIfEnabled sa))"
  by (cases sa, simp add: create_steps sameSettings_def)+

lemma create_step_fields:
  "activeNotes (fst (createDistortionIfEnabled sa)) = activeNotes (fst sa) \<and>
   oscillatorsStopped (fst (createDistortionIfEnabled sa)) = oscillatorsStopped (fst sa) \<and>
   connections (fst (createDistortionIfEnabled sa)) = connections (fst sa)"
  "activeNotes (fst (createFilterIfEnabled sa)) = activeNotes (fst sa) \<and>
   oscillatorsStopped (fst (createFilterIfEnabled sa)) = oscillatorsStopped (fst sa) \<and>
   connections (fst (createFilterIfEnabled sa)) = connections (fst sa)"
  "activeNotes (fst (createVibratoIfEnabled sa)) = activeNotes (fst sa) \<and>
   oscillatorsStopped (fst (createVibratoIfEnabled sa)) = oscillatorsStopped (fst sa) \<and>
   connections (fst (createVibratoIfEnabled sa)) = connections (fst sa)"
  "activeNotes (fst (createDelayIfEnabled sa)) = activeNotes (fst sa) \<and>
   oscillatorsStopped (fst (createDelayIfEnabled sa)) = oscillatorsStopped (fst sa) \<and>
   connections (fst (createDelayIfEnabled sa)) = connections (fst sa)"
  "activeNotes (fst (createReverbIfEnabled sa)) = activeNotes (fst sa) \<and>
   oscillatorsStopped (fst (createReverbIfEnabled sa)) = oscillatorsStopped (fst sa) \<and>
   connections (fst (createReverbIfEnabled sa)) = connections (fst sa)"
  by (cases sa, simp add: create_steps)+

lemma createActiveEffects_same [simp]: "sameSettings s (fst (createActiveEffects s))"
  unfolding createActiveEffects_def
  by (rule sameSettings_trans[OF _ create_step_same(5)],
      rule sameSettings_trans[OF _ create_step_same(4)],
      rule sameSettings_trans[OF _ create_step_same(3)],
      rule sameSettings_trans[OF _ create_step_same(2)])
     (use create_step_same(1)[of "(s, [])"] in simp)

lemma createActiveEffects_fields [simp]:
  "activeNotes (fst (createActiveEffects s)) = activeNotes s"
  "oscillatorsStopped (fst (createActiveEffects s)) = oscillatorsStopped s"
  "connections (fst (createActiveEffects s)) = connections s"
  unfolding createActiveEffects_def by (simp_all only: create_step_fields fst_conv)


subsection \<open>Wiring of the chain\<close>

lemma chainLinks_ends:
  "e \<in> set (chainLinks us) \<Longrightarrow>
     (\<exists>u \<in> set us. fst e = EffectOutput u) \<and> (\<exists>v \<in> set us. snd e = EffectInput v)"
  by (induction us rule: chainLinks.induct) auto

lemma chainPath_ends:
  assumes "e \<in> set (chainPath us)"
  shows "isChainEdge e"
    and "fst e = EffectsInputGain \<or> (\<exists>u \<in> set us. fst e = EffectOutput u)"
    and "snd e = MasterGain \<or> (\<exists>u \<in> set us. snd e = EffectInput u)"
  using assms chainLinks_ends[of e us]
  by (auto simp: chainPath_def isChainEdge_def split: if_splits)

lemma connectPairs_fields [simp]:
  "effectNodes (connectPairs us s) = effectNodes s"
  "activeNotes (connectPairs us s) = activeNotes s"
  "oscillatorsStopped (connectPairs us s) = oscillatorsStopped s"
  "sameSettings s (connectPairs us s)"
  "set (connections (connectPairs us s)) = set (connections s) \<union> set (chainLinks us)"
  by (induction us s rule: connectPairs.induct)
     (auto simp: connect_def sameSettings_def)

lemma connectChain_fields [simp]:
  "effectNodes (connectChain us s) = effectNodes s"
  "activeNotes (connectChain us s) = activeNotes s"
  "oscillatorsStopped (connectChain us s) = oscillatorsStopped s"
  by (simp_all add: connectChain_def connect_def Let_def)

lemma connectChain_same [simp]: "sameSettings s (connectChain us s)"
proof -
  have "sameSettings s (connectPairs us (connect EffectsInputGain (EffectInput (hd us)) s))"
    using connectPairs_fields(4)[of "connect EffectsInputGain (EffectInput (hd us)) s" us]
    by (simp add: sameSettings_def connect_def)
  then show ?thesis
    by (simp add: connectChain_def Let_def sameSettings_def connect_def)
qed

lemma connectChain_connections:
  "set (connections (connectChain us s)) = set (connections s) \<union> set (chainPath us)"
  by (auto simp: connectChain_def chainPath_def connect_def Let_def)

lemma chainEdges_connectChain:
  "chainEdges (connectChain us s) = chainEdges s \<union> set (chainPath us)"
  using chainPath_ends(1)[of _ us]
  by (auto simp: chainEdges_def connectChain_connections)

lemma rebuildEffectChain_live:
  assumes live: "audioContext s" "effectsInputGain s" "masterGain s"
    and old: "\<And>e. e \<in> chainEdges s \<Longrightarrow> fst e = EffectsInputGain \<or> fst e \<in> cleanedNodes s"
  shows "chainWired (rebuildEffectChain s)" "sameSettings s (rebuildEffectChain s)"
    "activeNotes (rebuildEffectChain s) = activeNotes s"
    "oscillatorsStopped (rebuildEffectChain s) = oscillatorsStopped s"
proof -
  define s2 where "s2 = cleanupAllEffects (disconnectAll EffectsInputGain s)"
  define s3 where "s3 = fst (createActiveEffects s2)"
  define us where "us = snd (createActiveEffects s2)"
  have reb: "rebuildEffectChain s = connectChain us s3"
    using live by (simp add: rebuildEffectChain_def Let_def split_def s2_def s3_def us_def)
  have cn: "cleanedNodes (disconnectAll EffectsInputGain s) = cleanedNodes s"
    by (simp add: cleanedNodes_def disconnectAll_def)
  have c2: "connections s2 =
      filter (\<lambda>e. fst e \<notin> cleanedNodes s) (filter (\<lambda>e. fst e \<noteq> EffectsInputGain) (connections s))"
    unfolding s2_def by (simp add: cn) (simp add: disconnectAll_def)
  have e2: "chainEdges s2 = {}"
  proof -
    have "False" if "e \<in> chainEdges s2" for e
    proof -
      from that have "e \<in> chainEdges s" "fst e \<noteq> EffectsInputGain" "fst e \<notin> cleanedNodes s"
        by (auto simp: chainEdges_def c2)
      with old[of e] show False by blast
    qed
    then show ?thesis by blast
  qed
  have n2: "effectNodes s2 = noEffectNodes"
    by (simp add: s2_def)
  note units = createActiveEffects_units[OF n2, folded s3_def us_def]
  have e3: "chainEdges s3 = {}"
    using e2 by (simp add: chainEdges_def s3_def)
  have "chainEdges (connectChain us s3) = set (chainPath us)"
    by (simp add: chainEdges_connectChain e3)
  moreover have "serialUnits (connectChain us s3) = us"
    using units by (simp add: serialUnits_def)
  moreover have "unitsMatchFlags (connectChain us s3)"
  proof -
    have "effectsState (connectChain us s3) = effectsState s3"
      using connectChain_same[of s3 us] by (simp add: sameSettings_def)
    then show ?thesis using units by (simp add: unitsMatchFlags_def)
  qed
  ultimately show "chainWired (rebuildEffectChain s)"
    using units by (simp add: chainWired_def reb split: option.splits)
  have "sameSettings s s2"
    unfolding s2_def
    by (rule sameSettings_trans[OF sameSettings_primitives(2) cleanupAllEffects_same])
  from sameSettings_trans[OF this createActiveEffects_same, folded s3_def]
  show "sameSettings s (rebuildEffectChain s)"
    unfolding reb by (rule sameSettings_trans) simp
  show "activeNotes (rebuildEffectChain s) = activeNotes s"
    by (simp add: reb s3_def s2_def disconnectAll_def)
  show "oscillatorsStopped (rebuildEffectChain s) = oscillatorsStopped s"
    by (simp add: reb s3_def s2_def disconnectAll_def)
qed

lemma chainWired_old:
  assumes "chainEdges s = set (chainPath (serialUnits s))" "e \<in> chainEdges s"
  shows "fst e = EffectsInputGain \<or> fst e \<in> cleanedNodes s"
proof -
  from assms chainPath_ends(2)[of e "serialUnits s"]
  consider "fst e = EffectsInputGain" | u where "u \<in> set (serialUnits s)" "fst e = EffectOutput u"
    by auto
  then show ?thesis
  proof cases
    case 1
    then show ?thesis by simp
  next
    case 2
    then show ?thesis
      by (cases "node_distortion (effectNodes s)"; cases "node_filter (effectNodes s)";
          cases "node_delay (effectNodes s)"; cases "node_reverb (effectNodes s)")
         (auto simp: serialUnits_def cleanedNodes_def)
  qed
qed


subsection \<open>The invariant\<close>

lemma chainWired_cong:
  "effectNodes s' = effectNodes s \<Longrightarrow> effectsState s' = effectsState s \<Longrightarrow>
   chainEdges s' = chainEdges s \<Longrightarrow> chainWired s' = chainWired s"
proof -
  assume a: "effectNodes s' = effectNodes s" "effectsState s' = effectsState s"
    "chainEdges s' = chainEdges s"
  have "serialUnits s' = serialUnits s"
    by (simp add: serialUnits_def a)
  then show ?thesis
    by (simp add: chainWired_def unitsMatchFlags_def a cong: option.case_cong)
qed

lemma chainEdges_connect:
  "\<not> isChainEdge (a, b) \<Longrightarrow> chainEdges (connect a b s) = chainEdges s"
  by (auto simp: chainEdges_def connect_def)

lemma chainEdges_disconnectFrom:
  "\<not> isChainEdge (a, b) \<Longrightarrow> chainEdges (disconnectFrom a b s) = chainEdges s"
  by (auto simp: chainEdges_def disconnectFrom_def)

lemma notChainEdge [simp]:
  "\<not> isChainEdge (LfoGain v, OscillatorDetune x)"
  "\<not> isChainEdge (OscillatorNode x, VoiceGain g)"
  "\<not> isChainEdge (VoiceGain g, EffectsInputGain)"
  "\<not> isChainEdge (MasterGain, Compressor)"
  "\<not> isChainEdge (Compressor, Destination)"
  by (simp_all add: isChainEdge_def)

lemma synthInv_new: "synthInv (Synth_new config)"
  by (simp add: synthInv_def Synth_new_def noEffectNodes_def)

lemma ensureAudioContext_inv:
  assumes "synthInv s" "\<not> destroyed s"
  shows "synthInv (ensureAudioContext s) \<and> audioContext (ensureAudioContext s) \<and>
      effectsInputGain (ensureAudioContext s) \<and>
      activeNotes (ensureAudioContext s) = activeNotes s \<and>
      oscillatorsStopped (ensureAudioContext s) = oscillatorsStopped s \<and>
      destroyed (ensureAudioContext s) = destroyed s \<and>
      octaveShift (ensureAudioContext s) = octaveShift s"
proof (cases "audioContext s")
    case True
    then show ?thesis
      using assms by (simp add: ensureAudioContext_def synthInv_def)
  next
    case False
    define s1 where "s1 = s\<lparr>audioContext := True, contextsCreated := contextsCreated s + 1,
        compressor := True, masterGain := True, masterGainValue := volume s,
        effectsInputGain := True\<rparr>"
    define s2 where "s2 = rebuildEffectChain s1"
    have ens: "ensureAudioContext s = connect Compressor Destination (connect MasterGain Compressor s2)"
      using False by (simp add: ensureAudioContext_def Let_def s1_def s2_def)
    from False assms have pre: "activeNotes s = []" "connections s = []" "contextsCreated s = 0"
      "contextsClosed s = 0"
      by (simp_all add: synthInv_def)
    have live: "audioContext s1" "effectsInputGain s1" "masterGain s1"
      by (simp_all add: s1_def)
    have old: "\<And>e. e \<in> chainEdges s1 \<Longrightarrow> fst e = EffectsInputGain \<or> fst e \<in> cleanedNodes s1"
      using pre by (simp add: chainEdges_def s1_def)
    have r: "chainWired s2" "sameSettings s1 s2" "activeNotes s2 = activeNotes s1"
      "oscillatorsStopped s2 = oscillatorsStopped s1"
      unfolding s2_def by (rule rebuildEffectChain_live[OF live old]; assumption)+
    have same: "sameSettings s1 (ensureAudioContext s)"
      unfolding ens
      by (rule sameSettings_trans[OF r(2)],
          rule sameSettings_trans[OF sameSettings_primitives(1) sameSettings_primitives(1)])
    have wired: "chainWired (ensureAudioContext s)"
      unfolding ens using r(1)
      by (subst chainWired_cong[of _ s2])
         (simp_all add: chainEdges_connect, simp_all add: connect_def)
    have nts: "activeNotes (ensureAudioContext s) = []"
      "oscillatorsStopped (ensureAudioContext s) = oscillatorsStopped s"
      unfolding ens using r(3,4) pre by (simp_all add: connect_def s1_def)
    show ?thesis
      using same wired nts pre assms(2)
      by (simp add: synthInv_def sameSettings_def s1_def)
qed


lemma chainWired_updates [simp]:
  "chainWired (s\<lparr>activeNotes := ns\<rparr>) = chainWired s"
  "chainWired (s\<lparr>oscillatorsStopped := os\<rparr>) = chainWired s"
  "chainWired (s\<lparr>nodesCreated := n\<rparr>) = chainWired s"
  "chainWired (s\<lparr>detuneValues := d\<rparr>) = chainWired s"
  "chainWired (s\<lparr>volume := v\<rparr>) = chainWired s"
  "chainWired (s\<lparr>masterGainValue := v\<rparr>) = chainWired s"
  "chainWired (s\<lparr>waveform := w\<rparr>) = chainWired s"
  "chainWired (s\<lparr>octaveShift := v\<rparr>) = chainWired s"
  by (rule chainWired_cong; simp add: chainEdges_def)+

lemma chainWired_connect [simp]:
  assumes "\<not> isChainEdge (a, b)"
  shows "chainWired (connect a b s) = chainWired s"
    and "chainWired (disconnectFrom a b s) = chainWired s"
proof -
  show "chainWired (connect a b s) = chainWired s"
    by (rule chainWired_cong) (simp_all add: chainEdges_connect[OF assms], simp_all add: connect_def)
  show "chainWired (disconnectFrom a b s) = chainWired s"
    by (rule chainWired_cong)
       (simp_all add: chainEdges_disconnectFrom[OF assms], simp_all add: disconnectFrom_def)
qed

subsection \<open>The voice table\<close>

lemma mapGet_None_iff: "mapGet m k = None \<longleftrightarrow> \<not> mapHas m k"
  by (simp add: mapGet_def mapHas_def map_of_eq_None_iff)

lemma filter_key_absent: "\<not> mapHas m k \<Longrightarrow> filter (\<lambda>e. fst e = k) m = []"
  by (induction m) (auto simp: mapHas_def)

lemma filter_key_present:
  "distinct (map fst m) \<Longrightarrow> mapGet m k = Some v \<Longrightarrow> filter (\<lambda>e. fst e = k) m = [(k, v)]"
proof (induction m)
  case Nil
  then show ?case by (simp add: mapGet_def)
next
  case (Cons e m)
  show ?case
  proof (cases "fst e = k")
    case True
    then have "\<not> mapHas m k" using Cons.prems(1) by (auto simp: mapHas_def)
    then show ?thesis using True Cons.prems(2) filter_key_absent[of m k]
      by (cases e) (simp add: mapGet_def)
  next
    case False
    then show ?thesis using Cons by (cases e) (simp add: mapGet_def)
  qed
qed

lemma mapDelete_absent: "\<not> mapHas m k \<Longrightarrow> mapDelete k m = m"
  by (induction m) (auto simp: mapHas_def mapDelete_def)

lemma mapDelete_props [simp]:
  "distinct (map fst m) \<Longrightarrow> distinct (map fst (mapDelete k m))"
  "\<not> mapHas (mapDelete k m) k"
  "mapDelete k [] = []"
  by (auto simp: mapDelete_def mapHas_def distinct_map_filter)

lemma length_mapDelete:
  "length (mapDelete k m) + length (filter (\<lambda>e. fst e = k) m) = length m"
  using sum_length_filter_compl[of "\<lambda>e. fst e = k" m]
  by (simp add: mapDelete_def)

lemma mapSet_absent: "\<not> mapHas m k \<Longrightarrow> mapSet k v m = m @ [(k, v)]"
  by (simp add: mapSet_def)

lemma noteOff_inv:
  assumes "synthInv s"
  shows "synthInv (noteOff k s) \<and> sameSettings s (noteOff k s) \<and>
         effectNodes (noteOff k s) = effectNodes s \<and>
         nodesCreated (noteOff k s) = nodesCreated s \<and>
         activeNotes (noteOff k s) = mapDelete k (activeNotes s) \<and>
         oscillatorsStopped (noteOff k s) =
           oscillatorsStopped s @ map (\<lambda>e. oscillator (snd e)) (filter (\<lambda>e. fst e = k) (activeNotes s))"
proof (cases "mapGet (activeNotes s) k")
  case None
  then have "\<not> mapHas (activeNotes s) k" by (simp add: mapGet_None_iff)
  then show ?thesis
    using None assms by (simp add: noteOff_def mapDelete_absent filter_key_absent)
next
  case (Some n)
  then have "activeNotes s \<noteq> []" by (auto simp: mapGet_def)
  then have live: "audioContext s" using assms by (auto simp: synthInv_def split: if_splits)
  have d: "distinct (map fst (activeNotes s))" using assms by (simp add: synthInv_def)
  have f: "filter (\<lambda>e. fst e = k) (activeNotes s) = [(k, n)]"
    by (rule filter_key_present[OF d Some])
  show ?thesis
    using Some live assms d
    by (cases "node_vibrato (effectNodes s)")
       (simp_all add: noteOff_def Let_def f synthInv_def sameSettings_def disconnectFrom_def
          chainWired_connect(2)[unfolded disconnectFrom_def])
qed


lemma connect_fields [simp]:
  "audioContext (connect a b s) = audioContext s"
  "audioContext (disconnectFrom a b s) = audioContext s"
  "masterGain (connect a b s) = masterGain s"
  "masterGain (disconnectFrom a b s) = masterGain s"
  "compressor (connect a b s) = compressor s"
  "compressor (disconnectFrom a b s) = compressor s"
  "effectsInputGain (connect a b s) = effectsInputGain s"
  "effectsInputGain (disconnectFrom a b s) = effectsInputGain s"
  "activeNotes (connect a b s) = activeNotes s"
  "activeNotes (disconnectFrom a b s) = activeNotes s"
  "waveform (connect a b s) = waveform s"
  "waveform (disconnectFrom a b s) = waveform s"
  "envelope (connect a b s) = envelope s"
  "envelope (disconnectFrom a b s) = envelope s"
  "volume (connect a b s) = volume s"
  "volume (disconnectFrom a b s) = volume s"
  "destroyed (connect a b s) = destroyed s"
  "destroyed (disconnectFrom a b s) = destroyed s"
  "octaveShift (connect a b s) = octaveShift s"
  "octaveShift (disconnectFrom a b s) = octaveShift s"
  "effectsState (connect a b s) = effectsState s"
  "effectsState (disconnectFrom a b s) = effectsState s"
  "effectNodes (connect a b s) = effectNodes s"
  "effectNodes (disconnectFrom a b s) = effectNodes s"
  "nodesCreated (connect a b s) = nodesCreated s"
  "nodesCreated (disconnectFrom a b s) = nodesCreated s"
  "contextsCreated (connect a b s) = contextsCreated s"
  "contextsCreated (disconnectFrom a b s) = contextsCreated s"
  "contextsClosed (connect a b s) = contextsClosed s"
  "contextsClosed (disconnectFrom a b s) = contextsClosed s"
  "oscillatorsStopped (connect a b s) = oscillatorsStopped s"
  "oscillatorsStopped (disconnectFrom a b s) = oscillatorsStopped s"
  "masterGainValue (connect a b s) = masterGainValue s"
  "masterGainValue (disconnectFrom a b s) = masterGainValue s"
  "detuneValues (connect a b s) = detuneValues s"
  "detuneValues (disconnectFrom a b s) = detuneValues s"
  by (simp_all add: connect_def disconnectFrom_def)

lemma connect_update_commute [simp]:
  "connect a b (s\<lparr>nodesCreated := n\<rparr>) = (connect a b s)\<lparr>nodesCreated := n\<rparr>"
  by (simp add: connect_def)

lemma noteOn_inv:
  assumes "synthInv s" "\<not> destroyed s"
  shows "synthInv (noteOn k f s) \<and> audioContext (noteOn k f s) \<and> \<not> destroyed (noteOn k f s) \<and>
         octaveShift (noteOn k f s) = octaveShift s \<and>
         nodesCreated (noteOn k f s) = nodesCreated (ensureAudioContext s) + 2 \<and>
         activeNotes (noteOn k f s) =
           mapDelete k (activeNotes s) @
             [(k, \<lparr>oscillator = nodesCreated (ensureAudioContext s),
                   gainNode = nodesCreated (ensureAudioContext s) + 1,
                   note_frequency = max MIN_FREQUENCY (min MAX_FREQUENCY (f * 2 powr octaveShift s))\<rparr>)] \<and>
         oscillatorsStopped (noteOn k f s) =
           oscillatorsStopped s @ map (\<lambda>e. oscillator (snd e)) (filter (\<lambda>e. fst e = k) (activeNotes s))"
proof -
  define s1 where "s1 = ensureAudioContext s"
  define s2 where "s2 = (if mapHas (activeNotes s1) k then noteOff k s1 else s1)"
  from ensureAudioContext_inv[OF assms] have e:
    "synthInv s1" "audioContext s1" "effectsInputGain s1" "activeNotes s1 = activeNotes s"
    "oscillatorsStopped s1 = oscillatorsStopped s" "\<not> destroyed s1" "octaveShift s1 = octaveShift s"
    using assms(2) by (simp_all add: s1_def)
  have s2: "synthInv s2 \<and> sameSettings s1 s2 \<and> effectNodes s2 = effectNodes s1 \<and>
      nodesCreated s2 = nodesCreated s1 \<and> activeNotes s2 = mapDelete k (activeNotes s) \<and>
      oscillatorsStopped s2 =
        oscillatorsStopped s @ map (\<lambda>e. oscillator (snd e)) (filter (\<lambda>e. fst e = k) (activeNotes s))"
  proof (cases "mapHas (activeNotes s1) k")
    case True
    then show ?thesis
      using noteOff_inv[OF e(1), of k] e(4,5) by (simp add: s2_def)
  next
    case False
    then show ?thesis
      using e by (simp add: s2_def mapDelete_absent filter_key_absent)
  qed
  then have t: "synthInv s2" "audioContext s2" "effectsInputGain s2" "\<not> destroyed s2"
    "masterGain s2" "contextsCreated s2 = 1" "contextsClosed s2 = 0" "chainWired s2"
    "octaveShift s2 = octaveShift s" "nodesCreated s2 = nodesCreated s1"
    "activeNotes s2 = mapDelete k (activeNotes s)"
    "oscillatorsStopped s2 =
        oscillatorsStopped s @ map (\<lambda>e. oscillator (snd e)) (filter (\<lambda>e. fst e = k) (activeNotes s))"
    using e by (auto simp: sameSettings_def synthInv_def split: if_splits)
  have d: "distinct (map fst (mapDelete k (activeNotes s)))" "\<not> mapHas (mapDelete k (activeNotes s)) k"
    using assms(1) by (simp_all add: synthInv_def)
  have on: "noteOn k f s =
      (let osc = nodesCreated s2;
           s3 = s2\<lparr>nodesCreated := osc + 1\<rparr>;
           s4 = (case node_vibrato (effectNodes s3) of
                   Some v \<Rightarrow>
                     (if fx_vibrato (effectsState s3)
                      then connect (LfoGain v) (OscillatorDetune osc) s3 else s3)
                 | None \<Rightarrow> s3);
           gain = nodesCreated s4;
           s5 = s4\<lparr>nodesCreated := gain + 1\<rparr>;
           s6 = connect (OscillatorNode osc) (VoiceGain gain) s5;
           s7 = connect (VoiceGain gain) EffectsInputGain s6
       in s7\<lparr>activeNotes :=
              mapSet k \<lparr>oscillator = osc, gainNode = gain,
                        note_frequency = max MIN_FREQUENCY (min MAX_FREQUENCY (f * 2 powr octaveShift s2))\<rparr>
                (activeNotes s7)\<rparr>)"
    using assms(2) e(2,3) unfolding noteOn_def s1_def[symmetric] Let_def s2_def[symmetric]
    by simp
  show ?thesis
    unfolding on using t d
    by (cases "node_vibrato (effectNodes s2)"; cases "fx_vibrato (effectsState s2)")
       (simp_all add: Let_def synthInv_def mapSet_absent mapHas_def s1_def)
qed


lemma synthInv_live_step:
  assumes "synthInv s" "audioContext s" "sameSettings s s'" "chainWired s'"
    "activeNotes s' = activeNotes s"
  shows "synthInv s'"
  using assms by (simp add: synthInv_def sameSettings_def)

lemma attachVibrato_inv:
  assumes "synthInv s" "audioContext s"
  shows "synthInv (attachVibrato enabled v es s)"
  using assms
proof (induction es arbitrary: s)
  case Nil
  then show ?case by simp
next
  case (Cons e es)
  let ?s1 = "if enabled then connect (LfoGain v) (OscillatorDetune (oscillator (snd e))) s
             else disconnectFrom (LfoGain v) (OscillatorDetune (oscillator (snd e))) s"
  have "synthInv ?s1"
    by (rule synthInv_live_step[OF Cons.prems]) (use Cons.prems in \<open>auto simp: synthInv_def\<close>)
  moreover have "audioContext ?s1" using Cons.prems(2) by simp
  ultimately have "synthInv (attachVibrato enabled v es ?s1)" by (rule Cons.IH)
  then show ?case by simp
qed

lemma rebuild_after_flags:
  assumes "synthInv s" "audioContext s"
  shows "synthInv (rebuildEffectChain (s\<lparr>effectsState := fx\<rparr>))"
    and "audioContext (rebuildEffectChain (s\<lparr>effectsState := fx\<rparr>))"
proof -
  let ?s1 = "s\<lparr>effectsState := fx\<rparr>"
  from assms have live: "audioContext ?s1" "effectsInputGain ?s1" "masterGain ?s1"
    and w: "chainWired s"
    by (simp_all add: synthInv_def)
  have ce: "chainEdges ?s1 = set (chainPath (serialUnits ?s1))"
    using w by (simp add: chainWired_def chainEdges_def serialUnits_def)
  note r = rebuildEffectChain_live[OF live chainWired_old[OF ce]]
  have "sameSettings ?s1 (rebuildEffectChain ?s1)" by (rule r(2))
  then show "audioContext (rebuildEffectChain ?s1)"
    using assms(2) by (simp add: sameSettings_def)
  show "synthInv (rebuildEffectChain ?s1)"
    using assms r(1,2,3) by (simp add: synthInv_def sameSettings_def)
qed

lemma toggle_inv:
  assumes "synthInv s"
  shows "synthInv (toggleDelay enabled s)" "synthInv (toggleDistortion enabled s)"
    "synthInv (toggleFilter enabled s)" "synthInv (toggleReverb enabled s)"
    "synthInv (toggleVibrato enabled s)"
proof -
  have off: "synthInv (s\<lparr>effectsState := fx\<rparr>)" if "\<not> audioContext s" for fx
    using assms that by (simp add: synthInv_def)
  show "synthInv (toggleDelay enabled s)"
    using assms off rebuild_after_flags(1)[OF assms] by (simp add: toggleDelay_def Let_def)
  show "synthInv (toggleDistortion enabled s)"
    using assms off rebuild_after_flags(1)[OF assms] by (simp add: toggleDistortion_def Let_def)
  show "synthInv (toggleFilter enabled s)"
    using assms off rebuild_after_flags(1)[OF assms] by (simp add: toggleFilter_def Let_def)
  show "synthInv (toggleReverb enabled s)"
    using assms off rebuild_after_flags(1)[OF assms] by (simp add: toggleReverb_def Let_def)
  show "synthInv (toggleVibrato enabled s)"
    using assms off rebuild_after_flags[OF assms] attachVibrato_inv
    by (simp add: toggleVibrato_def Let_def split: option.splits)
qed

lemma noteOff_destroyed_commute:
  "noteOff k (s\<lparr>destroyed := b\<rparr>) = (noteOff k s)\<lparr>destroyed := b\<rparr>"
  by (simp add: noteOff_def Let_def disconnectFrom_def split: option.splits)

lemma fold_noteOff_destroyed_commute:
  "fold noteOff ks (s\<lparr>destroyed := b\<rparr>) = (fold noteOff ks s)\<lparr>destroyed := b\<rparr>"
  by (induction ks arbitrary: s) (simp_all add: noteOff_destroyed_commute)

lemma fold_noteOff_inv:
  assumes "synthInv s"
  shows "synthInv (fold noteOff ks s) \<and> sameSettings s (fold noteOff ks s) \<and>
         effectNodes (fold noteOff ks s) = effectNodes s \<and>
         activeNotes (fold noteOff ks s) = filter (\<lambda>e. fst e \<notin> set ks) (activeNotes s)"
  using assms
proof (induction ks arbitrary: s)
  case Nil
  then show ?case by simp
next
  case (Cons k ks)
  from noteOff_inv[OF Cons.prems, of k] have 1: "synthInv (noteOff k s)"
    "sameSettings s (noteOff k s)" "effectNodes (noteOff k s) = effectNodes s"
    "activeNotes (noteOff k s) = mapDelete k (activeNotes s)" by simp_all
  from Cons.IH[OF 1(1)] 1 show ?case
    by (auto simp: sameSettings_def mapDelete_def intro: filter_cong)
qed

lemma stopAll_inv:
  assumes "synthInv s"
  shows "synthInv (stopAll s)" "sameSettings s (stopAll s)"
    "effectNodes (stopAll s) = effectNodes s" "activeNotes (stopAll s) = []"
  using fold_noteOff_inv[OF assms, of "map fst (activeNotes s)"]
  by (simp_all add: stopAll_def filter_empty_conv)

lemma Synth_destroy_inv:
  assumes "synthInv s"
  shows "synthInv (Synth_destroy s)" "destroyed (Synth_destroy s)"
    "contextsCreated (Synth_destroy s) = contextsCreated s"
proof -
  have st: "stopAll (s\<lparr>destroyed := True\<rparr>) = (stopAll s)\<lparr>destroyed := True\<rparr>"
    by (simp add: stopAll_def fold_noteOff_destroyed_commute)
  note a = stopAll_inv[OF assms]
  show "synthInv (Synth_destroy s)" "destroyed (Synth_destroy s)"
    "contextsCreated (Synth_destroy s) = contextsCreated s"
    using assms a(1,2,4)
    by (auto simp: Synth_destroy_def Let_def st cleanupAllEffects_eq synthInv_def sameSettings_def
        split: if_splits)
qed

lemma setter_inv:
  assumes "synthInv s"
  shows "synthInv (setWaveform w s)" "synthInv (setVolume v s)"
    "synthInv (setOctaveShift x s)" "synthInv (bend k c s)"
proof -
  show "synthInv (setWaveform w s)"
    using assms by (simp add: setWaveform_def synthInv_def)
  show "synthInv (setVolume v s)"
    using assms
    by (cases "masterGain s"; cases "audioContext s"; cases "destroyed s")
       (simp_all add: setVolume_def Let_def synthInv_def)
  show "synthInv (setOctaveShift x s)"
    using assms by (simp add: setOctaveShift_def synthInv_def)
  show "synthInv (bend k c s)"
    using assms
    by (cases "mapGet (activeNotes s) k"; cases "audioContext s")
       (simp_all add: bend_def synthInv_def)
qed

lemma synthReachable_inv: "synthReachable s \<Longrightarrow> synthInv s"
proof (induction rule: synthReachable.induct)
  case (created config)
  show ?case by (rule synthInv_new)
next
  case (called s c)
  show ?case
  proof (cases c)
    case (NoteOn k f)
    then show ?thesis
      using noteOn_inv[OF called.IH, of k f] called.IH by (cases "destroyed s") (simp_all add: noteOn_def)
  next
    case (NoteOff k)
    then show ?thesis using noteOff_inv[OF called.IH, of k] by simp
  next
    case StopAll
    then show ?thesis using stopAll_inv(1)[OF called.IH] by simp
  next
    case Destroy
    then show ?thesis using Synth_destroy_inv(1)[OF called.IH] by simp
  qed (use toggle_inv[OF called.IH] setter_inv[OF called.IH] in simp_all)
qed

subsection \<open>One voice per key\<close>

lemma mapDelete_append_key: "mapDelete k (mapDelete k m @ [(k, v)]) = mapDelete k m"
  by (simp add: mapDelete_def)

lemma mapGet_append_key: "\<not> mapHas m k \<Longrightarrow> mapGet (m @ [(k, v)]) k = Some v"
  by (simp add: mapGet_def mapHas_def map_of_eq_None_iff[symmetric] map_add_def)

lemma filter_key_append: "\<not> mapHas m k \<Longrightarrow> filter (\<lambda>e. fst e = k) (m @ [(k, v)]) = [(k, v)]"
  by (simp add: filter_key_absent)

lemmas synth_eval =
  Synth_new_def emptySynthConfig_def DEFAULT_ENVELOPE_def DEFAULT_VOLUME_def clampVolume_def
  MIN_FREQUENCY_def MAX_FREQUENCY_def MIN_OCTAVE_SHIFT_def MAX_OCTAVE_SHIFT_def
  connect_def disconnectAll_def disconnectFrom_def mapGet_def mapHas_def mapSet_def mapDelete_def
  createEffect_def cleanupEffect_def cleanupVibrato_def
  cleanupDelayNode_def cleanupDistortionNode_def cleanupVibratoNode_def cleanupFilterNode_def
  cleanupReverbNode_def cleanupAllEffects_def
  createDistortionIfEnabled_def createFilterIfEnabled_def createVibratoIfEnabled_def
  createDelayIfEnabled_def createReverbIfEnabled_def createActiveEffects_def
  connectChain_def rebuildEffectChain_def ensureAudioContext_def noteOff_def noteOn_def
  stopAll_def setWaveform_def setVolume_def bend_def setOctaveShift_def
  toggleDelay_def toggleDistortion_def toggleVibrato_def toggleFilter_def toggleReverb_def
  Synth_destroy_def getActiveNoteCount_def getVolume_def getOctaveShift_def getActiveEffects_def
  Synth_isDestroyed_def getWaveform_def Let_def

text \<open>
  C3. In every state the synth can reach the keys of the voice table are distinct, so a key
  holds at most one active note, and a \<open>noteOn\<close> raises the count of active notes by at
  most one. On a synth that is not destroyed, \<open>noteOn(k, f1)\<close> followed by \<open>noteOn(k, f2)\<close>
  leaves exactly one entry at key \<open>k\<close> and the count unchanged: the entry is a new
  oscillator at the frequency of \<open>f2\<close>, and the oscillator of the earlier voice has been
  told to stop.
\<close>

theorem one_voice_per_key:
  assumes "synthReachable s"
  shows "distinct (map fst (activeNotes s)) \<and>
         (\<forall>k f. getActiveNoteCount (noteOn k f s) \<le> getActiveNoteCount s + 1) \<and>
         (\<not> destroyed s \<longrightarrow>
            (\<forall>k f1 f2.
               length (filter (\<lambda>e. fst e = k) (activeNotes (noteOn k f2 (noteOn k f1 s)))) = 1 \<and>
               getActiveNoteCount (noteOn k f2 (noteOn k f1 s)) = getActiveNoteCount (noteOn k f1 s) \<and>
               (\<exists>n1 n2.
                  mapGet (activeNotes (noteOn k f1 s)) k = Some n1 \<and>
                  mapGet (activeNotes (noteOn k f2 (noteOn k f1 s))) k = Some n2 \<and>
                  oscillator n2 \<noteq> oscillator n1 \<and>
                  note_frequency n2 = max MIN_FREQUENCY (min MAX_FREQUENCY (f2 * 2 powr octaveShift s)) \<and>
                  oscillatorsStopped (noteOn k f2 (noteOn k f1 s)) =
                    oscillatorsStopped (noteOn k f1 s) @ [oscillator n1])))"
proof -
  note inv = synthReachable_inv[OF assms]
  have d: "distinct (map fst (activeNotes s))"
    using inv by (simp add: synthInv_def)
  have count: "getActiveNoteCount (noteOn k f s) \<le> getActiveNoteCount s + 1" for k f
  proof (cases "destroyed s")
    case True
    then show ?thesis by (simp add: noteOn_def)
  next
    case False
    from noteOn_inv[OF inv False, of k f] length_mapDelete[of k "activeNotes s"]
    show ?thesis by (simp add: getActiveNoteCount_def)
  qed
  have twice: "length (filter (\<lambda>e. fst e = k) (activeNotes (noteOn k f2 (noteOn k f1 s)))) = 1 \<and>
       getActiveNoteCount (noteOn k f2 (noteOn k f1 s)) = getActiveNoteCount (noteOn k f1 s) \<and>
       (\<exists>n1 n2.
          mapGet (activeNotes (noteOn k f1 s)) k = Some n1 \<and>
          mapGet (activeNotes (noteOn k f2 (noteOn k f1 s))) k = Some n2 \<and>
          oscillator n2 \<noteq> oscillator n1 \<and>
          note_frequency n2 = max MIN_FREQUENCY (min MAX_FREQUENCY (f2 * 2 powr octaveShift s)) \<and>
          oscillatorsStopped (noteOn k f2 (noteOn k f1 s)) =
            oscillatorsStopped (noteOn k f1 s) @ [oscillator n1])"
    if live: "\<not> destroyed s" for k f1 f2
  proof -
    define s1 where "s1 = noteOn k f1 s"
    define m where "m = mapDelete k (activeNotes s)"
    have nm: "\<not> mapHas m k" by (simp add: m_def)
    from noteOn_inv[OF inv live, of k f1] obtain n1 where
      1: "synthInv s1" "audioContext s1" "\<not> destroyed s1" "octaveShift s1 = octaveShift s"
        "nodesCreated s1 = nodesCreated (ensureAudioContext s) + 2"
        "activeNotes s1 = m @ [(k, n1)]"
        "oscillator n1 = nodesCreated (ensureAudioContext s)"
        "gainNode n1 = nodesCreated (ensureAudioContext s) + 1"
      by (simp add: s1_def m_def)
    have e1: "ensureAudioContext s1 = s1"
      using 1(2) by (simp add: ensureAudioContext_def)
    from noteOn_inv[OF 1(1,3), of k f2] obtain n2 where
      2: "activeNotes (noteOn k f2 s1) = mapDelete k (activeNotes s1) @ [(k, n2)]"
        "oscillator n2 = nodesCreated s1"
        "note_frequency n2 = max MIN_FREQUENCY (min MAX_FREQUENCY (f2 * 2 powr octaveShift s1))"
        "oscillatorsStopped (noteOn k f2 s1) =
           oscillatorsStopped s1 @ map (\<lambda>e. oscillator (snd e)) (filter (\<lambda>e. fst e = k) (activeNotes s1))"
      by (simp add: e1)
    have del: "mapDelete k (activeNotes s1) = m"
      by (simp add: 1(6) m_def mapDelete_append_key)
    have a2: "activeNotes (noteOn k f2 s1) = m @ [(k, n2)]"
      using 2(1) by (simp only: del)
    have st: "oscillatorsStopped (noteOn k f2 s1) = oscillatorsStopped s1 @ [oscillator n1]"
      using 2(4) by (simp only: 1(6) filter_key_append[OF nm]) simp
    have g1: "mapGet (activeNotes s1) k = Some n1"
      by (simp only: 1(6) mapGet_append_key[OF nm])
    have g2: "mapGet (activeNotes (noteOn k f2 s1)) k = Some n2"
      by (simp only: a2 mapGet_append_key[OF nm])
    have l: "length (filter (\<lambda>e. fst e = k) (activeNotes (noteOn k f2 s1))) = 1"
      by (simp only: a2 filter_key_append[OF nm]) simp
    have c: "getActiveNoteCount (noteOn k f2 s1) = getActiveNoteCount s1"
      by (simp add: getActiveNoteCount_def a2 1(6))
    have o: "oscillator n2 \<noteq> oscillator n1"
      using 2(2) 1(5,7) by simp
    have fr: "note_frequency n2 = max MIN_FREQUENCY (min MAX_FREQUENCY (f2 * 2 powr octaveShift s))"
      using 2(3) 1(4) by simp
    show ?thesis
      unfolding s1_def[symmetric]
      using l c g1 g2 o fr st by blast
  qed
  show ?thesis using d count twice by blast
qed

theorem one_voice_per_key_witness:
  "synthReachable (Synth_new emptySynthConfig) \<and> \<not> destroyed (Synth_new emptySynthConfig) \<and>
   length (filter (\<lambda>e. fst e = 3)
     (activeNotes (noteOn 3 440 (noteOn 3 220 (Synth_new emptySynthConfig))))) = 1 \<and>
   getActiveNoteCount (noteOn 3 440 (noteOn 3 220 (Synth_new emptySynthConfig))) = 1 \<and>
   oscillatorsStopped (noteOn 3 440 (noteOn 3 220 (Synth_new emptySynthConfig))) = [0] \<and>
   map (\<lambda>e. (fst e, oscillator (snd e), note_frequency (snd e)))
     (activeNotes (noteOn 3 440 (noteOn 3 220 (Synth_new emptySynthConfig)))) = [(3, 2, 440)]"
proof -
  have r: "synthReachable (Synth_new emptySynthConfig)"
    by (rule synthReachable.created)
  have nd: "\<not> destroyed (Synth_new emptySynthConfig)"
    by (simp add: Synth_new_def)
  have ev: "getActiveNoteCount (noteOn 3 440 (noteOn 3 220 (Synth_new emptySynthConfig))) = 1"
    "oscillatorsStopped (noteOn 3 440 (noteOn 3 220 (Synth_new emptySynthConfig))) = [0]"
    "map (\<lambda>e. (fst e, oscillator (snd e), note_frequency (snd e)))
       (activeNotes (noteOn 3 440 (noteOn 3 220 (Synth_new emptySynthConfig)))) = [(3, 2, 440)]"
    by (simp_all add: synth_eval cong: let_weak_cong)
  from one_voice_per_key[OF r] nd
  have "length (filter (\<lambda>e. fst e = 3)
     (activeNotes (noteOn 3 440 (noteOn 3 220 (Synth_new emptySynthConfig))))) = 1"
    by blast
  then show ?thesis using r nd ev by simp
qed

subsection \<open>The effect chain\<close>

subsection \<open>The chain at all times\<close>




section \<open>Properties of both classes\<close>

subsection \<open>Destroying twice\<close>

lemma backing_lifecycle:
  assumes "backingReachable b"
  shows "masterGainDisconnects b = (if bt_destroyed b then 1 else 0) \<and>
         compressorDisconnects b = (if bt_destroyed b then 1 else 0) \<and>
         (bt_destroyed b \<longrightarrow> \<not> isPlaying b) \<and> schedulerInterval b = isPlaying b \<and>
         beatsPerChord b = 4 * bars b"
  using assms
proof (rule backingReachable_invariant)
  fix config and s :: BackingTrack
  assume "BackingTrack_new config = Inr s"
  then show "masterGainDisconnects s = (if bt_destroyed s then 1 else 0) \<and>
         compressorDisconnects s = (if bt_destroyed s then 1 else 0) \<and>
         (bt_destroyed s \<longrightarrow> \<not> isPlaying s) \<and> schedulerInterval s = isPlaying s \<and>
         beatsPerChord s = 4 * bars s"
    by (auto simp: BackingTrack_new_def updateBeatsPerChord_def split: sum.splits)
next
  fix s :: BackingTrack
  assume "masterGainDisconnects s = (if bt_destroyed s then 1 else 0) \<and>
         compressorDisconnects s = (if bt_destroyed s then 1 else 0) \<and>
         (bt_destroyed s \<longrightarrow> \<not> isPlaying s) \<and> schedulerInterval s = isPlaying s \<and>
         beatsPerChord s = 4 * bars s"
  then show "masterGainDisconnects (scheduleBeat s) = (if bt_destroyed (scheduleBeat s) then 1 else 0) \<and>
         compressorDisconnects (scheduleBeat s) = (if bt_destroyed (scheduleBeat s) then 1 else 0) \<and>
         (bt_destroyed (scheduleBeat s) \<longrightarrow> \<not> isPlaying (scheduleBeat s)) \<and>
         schedulerInterval (scheduleBeat s) = isPlaying (scheduleBeat s) \<and>
         beatsPerChord (scheduleBeat s) = 4 * bars (scheduleBeat s)"
    by simp
next
  fix ev and s s' :: BackingTrack
  assume inv: "masterGainDisconnects s = (if bt_destroyed s then 1 else 0) \<and>
         compressorDisconnects s = (if bt_destroyed s then 1 else 0) \<and>
         (bt_destroyed s \<longrightarrow> \<not> isPlaying s) \<and> schedulerInterval s = isPlaying s \<and>
         beatsPerChord s = 4 * bars s"
    and "\<forall>now. ev \<noteq> Tick now" and "applyEvent ev s = Some s'"
  then show "masterGainDisconnects s' = (if bt_destroyed s' then 1 else 0) \<and>
         compressorDisconnects s' = (if bt_destroyed s' then 1 else 0) \<and>
         (bt_destroyed s' \<longrightarrow> \<not> isPlaying s') \<and> schedulerInterval s' = isPlaying s' \<and>
         beatsPerChord s' = 4 * bars s'"
    by (cases ev)
       (auto simp: play_def stop_def setTempo_def setChords_def setStyle_def setSwing_def
          setInstrument_def BackingTrack_destroy_def oscillatorEnded_def updateBeatsPerChord_def
          Let_def split: option.splits sum.splits if_splits)
qed

lemma funpow_Suc_fixed:
  assumes "f (f x) = f x"
  shows "(f ^^ Suc n) x = f x"
proof (induction n)
  case 0
  show ?case by simp
next
  case (Suc n)
  have "(f ^^ Suc (Suc n)) x = f ((f ^^ Suc n) x)" by simp
  also have "\<dots> = f (f x)" by (simp only: Suc)
  finally show ?case by (simp only: assms)
qed

lemma Synth_destroy_twice:
  assumes "synthInv s"
  shows "Synth_destroy (Synth_destroy s) = Synth_destroy s"
  using Synth_destroy_inv(2)[OF assms] by (subst Synth_destroy_def) simp

lemma BackingTrack_destroy_twice: "BackingTrack_destroy (BackingTrack_destroy b) = BackingTrack_destroy b"
  by (simp add: BackingTrack_destroy_def Let_def stop_def)

text \<open>
  C5. \<open>destroy()\<close> is idempotent for the synth and for the backing track: a second call
  (and any further one) changes nothing and raises nothing. Over any number of calls on a
  reachable instance the \<open>AudioContext\<close> of a synth whose engine was initialised is closed
  exactly once (and never when it was not), and the master gain and the compressor of a
  backing track are disconnected exactly once.
\<close>

theorem destroy_idempotent:
  assumes "synthReachable s" "backingReachable b"
  shows "Synth_destroy (Synth_destroy s) = Synth_destroy s \<and>
         (contextsCreated s = 1 \<longrightarrow> contextsClosed ((Synth_destroy ^^ Suc n) s) = 1) \<and>
         (contextsCreated s = 0 \<longrightarrow> contextsClosed ((Synth_destroy ^^ Suc n) s) = 0) \<and>
         BackingTrack_destroy (BackingTrack_destroy b) = BackingTrack_destroy b \<and>
         masterGainDisconnects ((BackingTrack_destroy ^^ Suc n) b) = 1 \<and>
         compressorDisconnects ((BackingTrack_destroy ^^ Suc n) b) = 1"
proof -
  note tw = Synth_destroy_twice[OF synthReachable_inv[OF assms(1)]]
  have sn: "(Synth_destroy ^^ Suc n) s = Synth_destroy s"
    by (rule funpow_Suc_fixed) (rule tw)
  have bn: "(BackingTrack_destroy ^^ Suc n) b = BackingTrack_destroy b"
    by (rule funpow_Suc_fixed) (rule BackingTrack_destroy_twice)
  note d = Synth_destroy_inv[OF synthReachable_inv[OF assms(1)]]
  have closed: "contextsClosed (Synth_destroy s) = contextsCreated s"
    using d by (simp add: synthInv_def)
  have "backingReachable (BackingTrack_destroy b)"
    by (rule backingReachable.event[OF assms(2), of CallDestroy]) simp
  from backing_lifecycle[OF this]
  have released: "masterGainDisconnects (BackingTrack_destroy b) = 1"
    "compressorDisconnects (BackingTrack_destroy b) = 1"
    by (simp_all add: BackingTrack_destroy_def Let_def stop_def split: if_splits)
  show ?thesis
    unfolding sn bn using closed released
    by (simp add: tw BackingTrack_destroy_twice)
qed

theorem destroy_idempotent_witness:
  "synthReachable busySynth \<and> backingReachable eighthTrack \<and> contextsCreated busySynth = 1 \<and>
   contextsClosed busySynth = 0 \<and>
   contextsClosed (Synth_destroy (Synth_destroy (Synth_destroy busySynth))) = 1 \<and>
   masterGainDisconnects eighthTrack = 0 \<and>
   masterGainDisconnects
     (BackingTrack_destroy (BackingTrack_destroy (BackingTrack_destroy eighthTrack))) = 1 \<and>
   compressorDisconnects
     (BackingTrack_destroy (BackingTrack_destroy (BackingTrack_destroy eighthTrack))) = 1"
proof -
  have r: "synthReachable busySynth"
    unfolding busySynth_def
    using synthReachable.called[of _ "ToggleDelay True"]
      synthReachable.called[of _ "ToggleDistortion False"]
      synthReachable.called[of _ "NoteOn 0 440"]
      synthReachable.called[of _ "ToggleReverb True"]
      synthReachable.called[of _ "ToggleDistortion True"]
      synthReachable.called[of _ "ToggleVibrato True"]
      synthReachable.created[of emptySynthConfig]
    by simp
  have new: "BackingTrack_new (emptyConfig\<lparr>cfg_style := Some eighth\<rparr>) = Inr eighthTrack"
    by (simp add: eighthTrack_def backing_eval)
  have b: "backingReachable eighthTrack"
    by (rule backingReachable.constructed[OF new])
  have ev: "contextsCreated busySynth = 1" "contextsClosed busySynth = 0"
    by (simp_all add: busySynth_def synth_eval cong: let_weak_cong)
  have ev2: "masterGainDisconnects eighthTrack = 0"
    by (simp add: eighthTrack_def backing_eval)
  from destroy_idempotent[OF r b, of 2] ev(1)
  have h: "contextsClosed (Synth_destroy (Synth_destroy (Synth_destroy busySynth))) = 1"
    "masterGainDisconnects
       (BackingTrack_destroy (BackingTrack_destroy (BackingTrack_destroy eighthTrack))) = 1"
    "compressorDisconnects
       (BackingTrack_destroy (BackingTrack_destroy (BackingTrack_destroy eighthTrack))) = 1"
    by (auto simp: eval_nat_numeral)
  show ?thesis
    by (intro conjI r b ev ev2 h)
qed

section \<open>The clamping setters\<close>

text \<open>
  C7. For every real input \<open>x\<close>, in every state of the instance, the numeric setters clamp
  and the matching getter returns the clamped value: after \<open>setVolume(x)\<close>, \<open>getVolume()\<close>
  is \<open>max(0, min(1, x))\<close>; after \<open>setOctaveShift(x)\<close>, \<open>getOctaveShift()\<close> is
  \<open>max(-2, min(2, x))\<close>; after \<open>setTempo(x)\<close>, \<open>getTempo()\<close> is \<open>max(20, min(300, x))\<close>;
  after \<open>setSwing(x)\<close>, \<open>getSwing()\<close> is \<open>max(0, min(100, x))\<close>. In particular
  \<open>setVolume(-5)\<close> gives 0, \<open>setVolume(5)\<close> gives 1, \<open>setOctaveShift(-9)\<close> gives -2,
  \<open>setOctaveShift(9)\<close> gives 2, \<open>setTempo(1)\<close> gives 20, \<open>setTempo(999)\<close> gives 300,
  \<open>setSwing(-1)\<close> gives 0 and \<open>setSwing(999)\<close> gives 100.
\<close>

theorem setters_clamp:
  "getVolume (setVolume x s) = max 0 (min 1 x) \<and>
   getOctaveShift (setOctaveShift x s) = max (- 2) (min 2 x) \<and>
   getTempo (setTempo x b) = max 20 (min 300 x) \<and>
   getSwing (setSwing x b) = max 0 (min 100 x) \<and>
   getVolume (setVolume (- 5) s) = 0 \<and> getVolume (setVolume 5 s) = 1 \<and>
   getOctaveShift (setOctaveShift (- 9) s) = - 2 \<and> getOctaveShift (setOctaveShift 9 s) = 2 \<and>
   getTempo (setTempo 1 b) = 20 \<and> getTempo (setTempo 999 b) = 300 \<and>
   getSwing (setSwing (- 1) b) = 0 \<and> getSwing (setSwing 999 b) = 100"
  by (simp add: getVolume_def setVolume_def clampVolume_def Let_def getOctaveShift_def
      setOctaveShift_def MIN_OCTAVE_SHIFT_def MAX_OCTAVE_SHIFT_def getTempo_def setTempo_def
      updateBeatsPerChord_def getSwing_def setSwing_def)

theorem setters_clamp_witness:
  "getVolume (setVolume (3 / 10) busySynth) = 3 / 10 \<and>
   getOctaveShift (setOctaveShift (- 9) busySynth) = - 2 \<and>
   getTempo (setTempo 999 eighthTrack) = 300 \<and> getSwing (setSwing 42 eighthTrack) = 42"
  using setters_clamp[of "3 / 10" busySynth eighthTrack] setters_clamp[of 42 busySynth eighthTrack]
  by simp

section \<open>Calls on a destroyed instance\<close>

lemma updateBeatsPerChord_id: "beatsPerChord s = 4 * bars s \<Longrightarrow> updateBeatsPerChord s = s"
  by (cases s) (simp add: updateBeatsPerChord_def)

text \<open>
  C4, as the claim states it, fails: the setters carry no test of the destroyed flag. On a
  destroyed synth \<open>setVolume(0.9)\<close> changes what \<open>getVolume()\<close> returns from 0.5 to 0.9 and
  \<open>toggleDelay(true)\<close> changes the delay flag of \<open>getActiveEffects()\<close>; on a destroyed
  sequencer \<open>setTempo(90)\<close> changes what \<open>getTempo()\<close> returns from 120 to 90, and
  \<open>setChords(['X'])\<close> throws.
\<close>

theorem destroyed_setter_counterexample:
  "Synth_isDestroyed (Synth_destroy (Synth_new emptySynthConfig)) \<and>
   getVolume (Synth_destroy (Synth_new emptySynthConfig)) = 1 / 2 \<and>
   getVolume (setVolume (9 / 10) (Synth_destroy (Synth_new emptySynthConfig))) = 9 / 10 \<and>
   \<not> fx_delay (getActiveEffects (Synth_destroy (Synth_new emptySynthConfig))) \<and>
   fx_delay (getActiveEffects (toggleDelay True (Synth_destroy (Synth_new emptySynthConfig)))) \<and>
   BackingTrack_isDestroyed (BackingTrack_destroy eighthTrack) \<and>
   getTempo (BackingTrack_destroy eighthTrack) = 120 \<and>
   getTempo (setTempo 90 (BackingTrack_destroy eighthTrack)) = 90 \<and>
   snd (setChords [''X''] None (BackingTrack_destroy eighthTrack)) = Some (InvalidChord ''X'')"
  by (simp add: synth_eval eighthTrack_def backing_eval getTempo_def BackingTrack_isDestroyed_def
      cong: let_weak_cong)

text \<open>
  C4, amended. On a destroyed synth (any state reached by calls of its public methods in
  which \<open>destroy()\<close> has been called) no voice is held, \<open>noteOn\<close>, \<open>noteOff\<close>, \<open>stopAll\<close>,
  \<open>bend\<close> and \<open>destroy\<close> leave the instance as it is, and no method throws; \<open>setVolume\<close>,
  \<open>setWaveform\<close>, \<open>setOctaveShift\<close> and the five toggles still store their (clamped) value,
  which the matching read accessor then returns, and change nothing else: no audio
  context, node or connection is made. On a destroyed sequencer \<open>play\<close>, \<open>stop\<close>, \<open>destroy\<close>
  and a tick of the timer leave the instance as it is; \<open>setTempo\<close>, \<open>setStyle\<close>, \<open>setSwing\<close>
  and \<open>setInstrument\<close> still store their (clamped) value and change nothing else;
  \<open>setChords\<close> still resolves the progression in the key given (or the current one), stores
  the chords when all resolve and throws the resolver's error otherwise, and the instance
  stays destroyed.
\<close>

theorem destroyed_instance_calls:
  assumes "synthReachable s" "destroyed s" "backingReachable b" "bt_destroyed b"
  shows "getActiveNoteCount s = 0 \<and>
         noteOn k f s = s \<and> noteOff k s = s \<and> stopAll s = s \<and> bend k c s = s \<and>
         Synth_destroy s = s \<and>
         setVolume v s = s\<lparr>volume := clampVolume v\<rparr> \<and>
         setWaveform w s = s\<lparr>waveform := w\<rparr> \<and>
         setOctaveShift x s = s\<lparr>octaveShift := max MIN_OCTAVE_SHIFT (min MAX_OCTAVE_SHIFT x)\<rparr> \<and>
         toggleDelay e s = s\<lparr>effectsState := (effectsState s)\<lparr>fx_delay := e\<rparr>\<rparr> \<and>
         toggleDistortion e s = s\<lparr>effectsState := (effectsState s)\<lparr>fx_distortion := e\<rparr>\<rparr> \<and>
         toggleVibrato e s = s\<lparr>effectsState := (effectsState s)\<lparr>fx_vibrato := e\<rparr>\<rparr> \<and>
         toggleFilter e s = s\<lparr>effectsState := (effectsState s)\<lparr>fx_filter := e\<rparr>\<rparr> \<and>
         toggleReverb e s = s\<lparr>effectsState := (effectsState s)\<lparr>fx_reverb := e\<rparr>\<rparr> \<and>
         play now b = b \<and> stop b = b \<and> BackingTrack_destroy b = b \<and>
         applyEvent (Tick now) b = Some b \<and>
         setTempo t b = b\<lparr>tempo := max 20 (min 300 t)\<rparr> \<and>
         setStyle st b = b\<lparr>style := st\<rparr> \<and>
         setSwing sw b = b\<lparr>swing := max 0 (min 100 sw)\<rparr> \<and>
         setInstrument i b = b\<lparr>instrument := i\<rparr> \<and>
         bt_destroyed (fst (setChords progression kk b)) \<and>
         (case resolveChords progression (case kk of Some k' \<Rightarrow> k' | None \<Rightarrow> key b) of
            Inl err \<Rightarrow> snd (setChords progression kk b) = Some err
          | Inr chords \<Rightarrow>
              snd (setChords progression kk b) = None \<and>
              getChords (fst (setChords progression kk b)) = chords)"
proof -
  from synthReachable_inv[OF assms(1)] assms(2)
  have dead: "\<not> audioContext s" "activeNotes s = []" "\<not> masterGain s"
    by (auto simp: synthInv_def split: if_splits)
  from backing_lifecycle[OF assms(3)] assms(4)
  have idle: "\<not> isPlaying b" "\<not> schedulerInterval b" "beatsPerChord b = 4 * bars b"
    by simp_all
  have synth0: "getActiveNoteCount s = 0"
    using dead(2) by (simp add: getActiveNoteCount_def)
  have synth1: "noteOn k f s = s" "noteOff k s = s" "stopAll s = s" "bend k c s = s"
    "Synth_destroy s = s"
    using assms(2) dead
    by (simp_all add: noteOn_def noteOff_def stopAll_def bend_def Synth_destroy_def mapGet_def)
  have synth2: "setVolume v s = s\<lparr>volume := clampVolume v\<rparr>"
    "setWaveform w s = s\<lparr>waveform := w\<rparr>"
    "setOctaveShift x s = s\<lparr>octaveShift := max MIN_OCTAVE_SHIFT (min MAX_OCTAVE_SHIFT x)\<rparr>"
    using dead by (simp_all add: setVolume_def setWaveform_def setOctaveShift_def Let_def)
  have synth3: "toggleDelay e s = s\<lparr>effectsState := (effectsState s)\<lparr>fx_delay := e\<rparr>\<rparr>"
    "toggleDistortion e s = s\<lparr>effectsState := (effectsState s)\<lparr>fx_distortion := e\<rparr>\<rparr>"
    "toggleVibrato e s = s\<lparr>effectsState := (effectsState s)\<lparr>fx_vibrato := e\<rparr>\<rparr>"
    "toggleFilter e s = s\<lparr>effectsState := (effectsState s)\<lparr>fx_filter := e\<rparr>\<rparr>"
    "toggleReverb e s = s\<lparr>effectsState := (effectsState s)\<lparr>fx_reverb := e\<rparr>\<rparr>"
    using dead(1)
    by (auto simp: toggleDelay_def toggleDistortion_def toggleVibrato_def toggleFilter_def
        toggleReverb_def Let_def)
  have back1: "play now b = b" "stop b = b" "BackingTrack_destroy b = b"
    "applyEvent (Tick now) b = Some b"
    using assms(4) idle by (simp_all add: play_def stop_def BackingTrack_destroy_def)
  have back2: "setTempo t b = b\<lparr>tempo := max 20 (min 300 t)\<rparr>" "setStyle st b = b\<lparr>style := st\<rparr>"
    "setSwing sw b = b\<lparr>swing := max 0 (min 100 sw)\<rparr>" "setInstrument i b = b\<lparr>instrument := i\<rparr>"
    using idle(3)
    by (simp_all add: setTempo_def setStyle_def setSwing_def setInstrument_def updateBeatsPerChord_id)
  have back3: "bt_destroyed (fst (setChords progression kk b)) \<and>
         (case resolveChords progression (case kk of Some k' \<Rightarrow> k' | None \<Rightarrow> key b) of
            Inl err \<Rightarrow> snd (setChords progression kk b) = Some err
          | Inr chords \<Rightarrow>
              snd (setChords progression kk b) = None \<and>
              getChords (fst (setChords progression kk b)) = chords)"
    using assms(4)
    by (cases kk; cases "resolveChords progression (case kk of Some k' \<Rightarrow> k' | None \<Rightarrow> key b)")
       (simp_all add: setChords_def getChords_def Let_def)
  show ?thesis
    by (intro conjI synth0 synth1 synth2 synth3 back1 back2
        back3[THEN conjunct1] back3[THEN conjunct2])
qed

theorem destroyed_instance_calls_witness:
  "synthReachable (Synth_destroy busySynth) \<and> destroyed (Synth_destroy busySynth) \<and>
   backingReachable (BackingTrack_destroy eighthTrack) \<and>
   bt_destroyed (BackingTrack_destroy eighthTrack) \<and>
   getActiveNoteCount (noteOn 3 440 (Synth_destroy busySynth)) = 0 \<and>
   getVolume (setVolume 2 (Synth_destroy busySynth)) = 1 \<and>
   fx_filter (getActiveEffects (toggleFilter True (Synth_destroy busySynth))) \<and>
   play 0 (BackingTrack_destroy eighthTrack) = BackingTrack_destroy eighthTrack \<and>
   getTempo (setTempo 90 (BackingTrack_destroy eighthTrack)) = 90"
proof -
  have r0: "synthReachable busySynth"
    unfolding busySynth_def
    using synthReachable.called[of _ "ToggleDelay True"]
      synthReachable.called[of _ "ToggleDistortion False"]
      synthReachable.called[of _ "NoteOn 0 440"]
      synthReachable.called[of _ "ToggleReverb True"]
      synthReachable.called[of _ "ToggleDistortion True"]
      synthReachable.called[of _ "ToggleVibrato True"]
      synthReachable.created[of emptySynthConfig]
    by simp
  have r: "synthReachable (Synth_destroy busySynth)"
    using synthReachable.called[OF r0, of Destroy] by simp
  have d: "destroyed (Synth_destroy busySynth)"
    by (rule Synth_destroy_inv(2)[OF synthReachable_inv[OF r0]])
  have new: "BackingTrack_new (emptyConfig\<lparr>cfg_style := Some eighth\<rparr>) = Inr eighthTrack"
    by (simp add: eighthTrack_def backing_eval)
  have b: "backingReachable (BackingTrack_destroy eighthTrack)"
    using backingReachable.event[OF backingReachable.constructed[OF new], of CallDestroy] by simp
  have bd: "bt_destroyed (BackingTrack_destroy eighthTrack)"
    by (simp add: BackingTrack_destroy_def stop_def)
  note h = destroyed_instance_calls[OF r d b bd]
  have v: "getActiveNoteCount (noteOn 3 440 (Synth_destroy busySynth)) = 0"
    "getVolume (setVolume 2 (Synth_destroy busySynth)) = 1"
    "fx_filter (getActiveEffects (toggleFilter True (Synth_destroy busySynth)))"
    "play 0 (BackingTrack_destroy eighthTrack) = BackingTrack_destroy eighthTrack"
    "getTempo (setTempo 90 (BackingTrack_destroy eighthTrack)) = 90"
    using h[where k = 3 and f = 440] h[where v = 2] h[where e = True] h[where now = 0]
      h[where t = 90]
    by (simp_all add: getVolume_def clampVolume_def getActiveEffects_def getTempo_def)
  show ?thesis
    by (intro conjI r d b bd v)
qed

end
